theory Spec2Isabelle
  imports Complex_Main
begin

section \<open>Gridded data with a missing-data mask (icepack/grid/grid\_data.py)\<close>

text \<open>
  The module interpolates a scalar field sampled on a regular grid. Coordinates and
  samples are floating-point numbers (\<^verbatim>\<open>numpy.float64\<close> entries of arrays). The functions
  of the module are written here over any type \<open>'f\<close> of numbers with the operations the
  source applies to them, so that nothing but the source's own steps enters a
  definition; the theorems say which properties of the operations they need. The
  operations of IEEE 754 binary64, with rounding to nearest, overflow to an infinity and
  NaN, are defined at the end of the definitions (\<open>binary64\<close>). Grid indices are Python
  integers, modelled as \<^typ>\<open>int\<close>: a negative index counts from the end of an array, an
  index out of range raises.
\<close>

subsection \<open>Errors\<close>

text \<open>
  Every \<^verbatim>\<open>raise\<close> of the module is a constructor. The four \<^verbatim>\<open>ValueError\<close>s of the
  source are told apart by where they are raised: the shape check and the final
  \<^verbatim>\<open>else\<close> of the constructor, the domain check of \<^verbatim>\<open>_index_of_point\<close>, and the
  missing-data check of \<^verbatim>\<open>_bilinear_interp\<close>. The others come from the runtime:
  an index out of range, \<^verbatim>\<open>int\<close> of an infinity (\<^verbatim>\<open>OverflowError\<close>) or of a NaN
  (\<^verbatim>\<open>ValueError\<close>), and a mask that does not fit its data.
\<close>

datatype error =
    ShapeMismatch
  | UnspecifiedMask
  | OutOfDomain
  | InsufficientData
  | IndexError
  | OverflowError
  | NanConversion
  | MaskError

definition ebind :: "error + 'a \<Rightarrow> ('a \<Rightarrow> error + 'b) \<Rightarrow> error + 'b" where
  "ebind m f = (case m of Inl e \<Rightarrow> Inl e | Inr v \<Rightarrow> f v)"

subsection \<open>Floating-point operations\<close>

text \<open>
  What \<^verbatim>\<open>int(v)\<close> does with a float: the integer towards zero, or one of two exceptions.
\<close>

datatype conversion = Converted int | IsInfinite | IsNaN

text \<open>
  The operations the source applies to numbers: the comparisons \<^verbatim>\<open><=\<close>, \<^verbatim>\<open><\<close> and
  \<^verbatim>\<open>==\<close>, the four arithmetic operations, and \<^verbatim>\<open>int\<close>.
\<close>

record 'f arith =
  fle :: "'f \<Rightarrow> 'f \<Rightarrow> bool"
  flt :: "'f \<Rightarrow> 'f \<Rightarrow> bool"
  feq :: "'f \<Rightarrow> 'f \<Rightarrow> bool"
  fadd :: "'f \<Rightarrow> 'f \<Rightarrow> 'f"
  fsub :: "'f \<Rightarrow> 'f \<Rightarrow> 'f"
  fmul :: "'f \<Rightarrow> 'f \<Rightarrow> 'f"
  fdiv :: "'f \<Rightarrow> 'f \<Rightarrow> 'f"
  fint :: "'f \<Rightarrow> conversion"

text \<open>
  The builtins \<^verbatim>\<open>max(a, b)\<close> and \<^verbatim>\<open>min(a, b)\<close> keep their first argument unless the
  second is greater, respectively smaller.
\<close>

definition pymax :: "'f arith \<Rightarrow> 'f \<Rightarrow> 'f \<Rightarrow> 'f" where
  "pymax A a b = (if flt A a b then b else a)"

definition pymin :: "'f arith \<Rightarrow> 'f \<Rightarrow> 'f \<Rightarrow> 'f" where
  "pymin A a b = (if flt A b a then b else a)"

subsection \<open>Arrays\<close>

text \<open>Indexing a one-dimensional array, \<^verbatim>\<open>a[k]\<close>, with Python's negative indices.\<close>

definition getitem :: "'a list \<Rightarrow> int \<Rightarrow> error + 'a" where
  "getitem a k =
     (let n = int (length a); k' = (if k < 0 then k + n else k)
      in if 0 \<le> k' \<and> k' < n then Inr (a ! nat k') else Inl IndexError)"

text \<open>
  The bounds of a slice \<^verbatim>\<open>a[lo:hi]\<close> of an array of length \<open>n\<close>: a negative bound
  counts from the end, and both are clipped to \<open>0 .. n\<close>. A slice never raises.
\<close>

definition slice_bound :: "nat \<Rightarrow> int \<Rightarrow> nat" where
  "slice_bound n k = (if k < 0 then nat (max (k + int n) 0) else min (nat k) n)"

definition slice :: "'a list \<Rightarrow> int \<Rightarrow> int \<Rightarrow> 'a list" where
  "slice a lo hi =
     (let s = slice_bound (length a) lo; e = slice_bound (length a) hi
      in take (e - s) (drop s a))"

text \<open>
  A two-dimensional array: its shape \<open>(ny, nx)\<close> and its rows. In a numpy array every
  row has \<open>nx\<close> entries and there are \<open>ny\<close> rows (\<open>wf_array2\<close>).
\<close>

record 'a array2 =
  shape :: "nat \<times> nat"
  cells :: "'a list list"

definition wf_array2 :: "'a array2 \<Rightarrow> bool" where
  "wf_array2 a \<longleftrightarrow>
     length (cells a) = fst (shape a) \<and> (\<forall>r \<in> set (cells a). length r = snd (shape a))"

text \<open>\<^verbatim>\<open>a[k, l]\<close>: each index is checked against its own axis.\<close>

definition getitem2 :: "'a array2 \<Rightarrow> int \<Rightarrow> int \<Rightarrow> error + 'a" where
  "getitem2 a k l =
     (let ny = int (fst (shape a)); nx = int (snd (shape a));
          k' = (if k < 0 then k + ny else k); l' = (if l < 0 then l + nx else l)
      in if 0 \<le> k' \<and> k' < ny \<and> 0 \<le> l' \<and> l' < nx
         then Inr (cells a ! nat k' ! nat l') else Inl IndexError)"

text \<open>\<^verbatim>\<open>a[rlo:rhi, clo:chi]\<close>\<close>

definition slice2 :: "'a array2 \<Rightarrow> int \<Rightarrow> int \<Rightarrow> int \<Rightarrow> int \<Rightarrow> 'a array2" where
  "slice2 a rlo rhi clo chi =
     \<lparr>shape = (slice_bound (fst (shape a)) rhi - slice_bound (fst (shape a)) rlo,
               slice_bound (snd (shape a)) chi - slice_bound (snd (shape a)) clo),
      cells = map (\<lambda>r. slice r clo chi) (slice (cells a) rlo rhi)\<rparr>"

text \<open>
  A masked array holds at each place a number or the constant \<^verbatim>\<open>ma.masked\<close>; reading
  a masked place gives that constant, here \<open>None\<close>. Arithmetic with the constant gives
  the constant.
\<close>

definition lift2 :: "('f \<Rightarrow> 'f \<Rightarrow> 'f) \<Rightarrow> 'f option \<Rightarrow> 'f option \<Rightarrow> 'f option" where
  "lift2 f u v = (case u of None \<Rightarrow> None | Some a \<Rightarrow> (case v of None \<Rightarrow> None | Some b \<Rightarrow> Some (f a b)))"

text \<open>The \<^verbatim>\<open>data\<close> argument of the constructor: a plain array or a masked one.\<close>

datatype 'f ndarray =
    Plain "'f array2"
  | MaskedArray "'f option array2"

fun ndarray_shape :: "'f ndarray \<Rightarrow> nat \<times> nat" where
  "ndarray_shape (Plain a) = shape a"
| "ndarray_shape (MaskedArray a) = shape a"

text \<open>\<^verbatim>\<open>ma.masked_equal(data, value)\<close>: every entry equal to the value is masked.\<close>

definition masked_equal :: "'f arith \<Rightarrow> 'f array2 \<Rightarrow> 'f \<Rightarrow> 'f option array2" where
  "masked_equal A a v =
     \<lparr>shape = shape a, cells = map (map (\<lambda>u. if feq A u v then None else Some u)) (cells a)\<rparr>"

text \<open>
  \<^verbatim>\<open>ma.MaskedArray(data=data, mask=mask)\<close> for a two-dimensional boolean \<^verbatim>\<open>mask\<close>:
  a mask of the data's shape is used as it is, a mask of one entry is repeated, a mask
  of the same number of entries is reshaped (row by row), and any other mask is refused.
\<close>

definition reshape :: "nat \<Rightarrow> nat \<Rightarrow> 'a list \<Rightarrow> 'a list list" where
  "reshape ny nx flat = map (\<lambda>k. take nx (drop (k * nx) flat)) [0..<ny]"

definition fit_mask :: "nat \<times> nat \<Rightarrow> bool array2 \<Rightarrow> error + bool list list" where
  "fit_mask shp m =
     (if shape m = shp then Inr (cells m)
      else if fst (shape m) * snd (shape m) = 1
        then Inr (replicate (fst shp) (replicate (snd shp) (hd (concat (cells m)))))
      else if fst (shape m) * snd (shape m) = fst shp * snd shp
        then Inr (reshape (fst shp) (snd shp) (concat (cells m)))
      else Inl MaskError)"

definition with_mask :: "'f array2 \<Rightarrow> bool array2 \<Rightarrow> error + 'f option array2" where
  "with_mask a m =
     ebind (fit_mask (shape a) m) (\<lambda>ms.
       Inr \<lparr>shape = shape a,
            cells = map2 (map2 (\<lambda>u b. if b then None else Some u)) (cells a) ms\<rparr>)"

subsection \<open>\<^verbatim>\<open>_index_of_point\<close>\<close>

text \<open>
  \<^verbatim>\<open>a[0] <= V <= a[-1]\<close>: a chained comparison reads \<^verbatim>\<open>a[-1]\<close> only when the
  first comparison holds.
\<close>

definition contains :: "'f arith \<Rightarrow> 'f list \<Rightarrow> 'f \<Rightarrow> error + bool" where
  "contains A a V =
     ebind (getitem a 0) (\<lambda>a0.
       if fle A a0 V then ebind (getitem a (- 1)) (\<lambda>al. Inr (fle A V al)) else Inr False)"

text \<open>
  \<^verbatim>\<open>int((V - a[0]) / (a[1] - a[0]))\<close>: the two differences and the quotient are float
  operations (numpy's division by zero gives an infinity or a NaN, not an exception),
  and \<^verbatim>\<open>int\<close> raises on an infinity and on a NaN.
\<close>

definition cell_of :: "'f arith \<Rightarrow> 'f list \<Rightarrow> 'f \<Rightarrow> error + int" where
  "cell_of A a V =
     ebind (getitem a 0) (\<lambda>a0.
     ebind (getitem a 1) (\<lambda>a1.
       case fint A (fdiv A (fsub A V a0) (fsub A a1 a0)) of
         Converted k \<Rightarrow> Inr k
       | IsInfinite \<Rightarrow> Inl OverflowError
       | IsNaN \<Rightarrow> Inl NanConversion))"

definition index_of_point ::
    "'f arith \<Rightarrow> 'f list \<Rightarrow> 'f list \<Rightarrow> 'f \<Rightarrow> 'f \<Rightarrow> error + (int \<times> int)" where
  "index_of_point A xs ys X Y =
     ebind (contains A xs X) (\<lambda>inx.
     ebind (if inx then contains A ys Y else Inr False) (\<lambda>inside.
       if \<not> inside then Inl OutOfDomain
       else
         ebind (cell_of A ys Y) (\<lambda>i.
         ebind (cell_of A xs X) (\<lambda>j.
           Inr (min i (int (length ys) - 2), min j (int (length xs) - 2))))))"

subsection \<open>\<^verbatim>\<open>_is_missing\<close>\<close>

text \<open>
  The list comprehension reads the four corners in the order \<open>(i, j)\<close>, \<open>(i, j+1)\<close>,
  \<open>(i+1, j)\<close>, \<open>(i+1, j+1)\<close>, all of them, before \<^verbatim>\<open>any\<close> looks at the results.
\<close>

definition is_missing :: "'f option array2 \<Rightarrow> int \<Rightarrow> int \<Rightarrow> error + bool" where
  "is_missing q i j =
     ebind (getitem2 q i j) (\<lambda>q00.
     ebind (getitem2 q i (j + 1)) (\<lambda>q01.
     ebind (getitem2 q (i + 1) j) (\<lambda>q10.
     ebind (getitem2 q (i + 1) (j + 1)) (\<lambda>q11.
       Inr (q00 = None \<or> q01 = None \<or> q10 = None \<or> q11 = None)))))"

subsection \<open>The class \<^verbatim>\<open>GridData\<close>\<close>

record 'f GridData =
  x :: "'f list"
  y :: "'f list"
  data :: "'f option array2"

text \<open>\<^verbatim>\<open>GridData.__init__(x, y, data, mask=None, missing_data_value=None)\<close>\<close>

definition init :: "'f arith \<Rightarrow> 'f list \<Rightarrow> 'f list \<Rightarrow> 'f ndarray \<Rightarrow> bool array2 option \<Rightarrow> 'f option
    \<Rightarrow> error + 'f GridData" where
  "init A xs ys d msk missing_data_value =
     (let (ny, nx) = ndarray_shape d in
      if length xs \<noteq> nx \<or> length ys \<noteq> ny then Inl ShapeMismatch
      else
        (case d of
           MaskedArray a \<Rightarrow> Inr \<lparr>x = xs, y = ys, data = a\<rparr>
         | Plain a \<Rightarrow>
             (case missing_data_value of
                Some v \<Rightarrow> Inr \<lparr>x = xs, y = ys, data = masked_equal A a v\<rparr>
              | None \<Rightarrow>
                  (case msk of
                     Some m \<Rightarrow> ebind (with_mask a m) (\<lambda>a'. Inr \<lparr>x = xs, y = ys, data = a'\<rparr>)
                   | None \<Rightarrow> Inl UnspecifiedMask))))"

text \<open>\<^verbatim>\<open>GridData.__getitem__\<close>: the raw entry, \<open>None\<close> where it is masked.\<close>

definition grid_getitem :: "'f GridData \<Rightarrow> int \<Rightarrow> int \<Rightarrow> error + 'f option" where
  "grid_getitem g i j = getitem2 (data g) i j"

text \<open>
  \<^verbatim>\<open>_bilinear_interp\<close>, with the operations in the order Python applies them:
  \<^verbatim>\<open>q00 + ax*dq_dx + ay*dq_dy + ax*ay*d2q_dx_dy\<close> is
  \<^verbatim>\<open>((q00 + ax*dq_dx) + ay*dq_dy) + (ax*ay)*d2q_dx_dy\<close>. Each of the four corners is read
  once here; the source reads them again in each difference, from an array that nothing
  changes in between.
\<close>

definition bilinear_interp :: "'f arith \<Rightarrow> 'f GridData \<Rightarrow> 'f \<Rightarrow> 'f \<Rightarrow> error + 'f option" where
  "bilinear_interp A q X Y =
     ebind (index_of_point A (x q) (y q) X Y) (\<lambda>(i, j).
     ebind (is_missing (data q) i j) (\<lambda>missing.
       if missing then Inl InsufficientData
       else
         ebind (getitem (x q) j) (\<lambda>xj.
         ebind (getitem (x q) 1) (\<lambda>x1.
         ebind (getitem (x q) 0) (\<lambda>x0.
         ebind (getitem (y q) i) (\<lambda>yi.
         ebind (getitem (y q) 1) (\<lambda>y1.
         ebind (getitem (y q) 0) (\<lambda>y0.
         ebind (grid_getitem q i j) (\<lambda>q00.
         ebind (grid_getitem q i (j + 1)) (\<lambda>q01.
         ebind (grid_getitem q (i + 1) j) (\<lambda>q10.
         ebind (grid_getitem q (i + 1) (j + 1)) (\<lambda>q11.
           let ax = Some (fdiv A (fsub A X xj) (fsub A x1 x0));
               ay = Some (fdiv A (fsub A Y yi) (fsub A y1 y0));
               dq_dx = lift2 (fsub A) q01 q00;
               dq_dy = lift2 (fsub A) q10 q00;
               d2q_dx_dy = lift2 (fsub A) (lift2 (fsub A) (lift2 (fadd A) q00 q11) q10) q01
           in Inr (lift2 (fadd A)
                     (lift2 (fadd A) (lift2 (fadd A) q00 (lift2 (fmul A) ax dq_dx))
                                     (lift2 (fmul A) ay dq_dy))
                     (lift2 (fmul A) (lift2 (fmul A) ax ay) d2q_dx_dy))))))))))))))"

text \<open>\<^verbatim>\<open>GridData.__call__\<close>, the evaluation at a point.\<close>

definition evaluate :: "'f arith \<Rightarrow> 'f GridData \<Rightarrow> 'f \<times> 'f \<Rightarrow> error + 'f option" where
  "evaluate A g p = bilinear_interp A g (fst p) (snd p)"

definition is_masked :: "'f arith \<Rightarrow> 'f GridData \<Rightarrow> 'f \<times> 'f \<Rightarrow> error + bool" where
  "is_masked A g p =
     ebind (index_of_point A (x g) (y g) (fst p) (snd p)) (\<lambda>(i, j). is_missing (data g) i j)"

text \<open>
  \<^verbatim>\<open>GridData.subset\<close>. The sliced data is a masked array, so the constructor is called
  with neither a mask nor a missing-data value.
\<close>

definition subset :: "'f arith \<Rightarrow> 'f GridData \<Rightarrow> 'f \<Rightarrow> 'f \<Rightarrow> 'f \<Rightarrow> 'f \<Rightarrow> error + 'f GridData" where
  "subset A g xmin ymin xmax ymax =
     ebind (getitem (x g) 0) (\<lambda>x0.
     ebind (getitem (y g) 0) (\<lambda>y0.
     ebind (getitem (x g) (- 1)) (\<lambda>xl.
     ebind (getitem (y g) (- 1)) (\<lambda>yl.
       let Xmin = pymax A xmin x0; Ymin = pymax A ymin y0;
           Xmax = pymin A xmax xl; Ymax = pymin A ymax yl
       in
         ebind (index_of_point A (x g) (y g) Xmin Ymin) (\<lambda>(imin, jmin).
         ebind (index_of_point A (x g) (y g) Xmax Ymax) (\<lambda>(imax, jmax).
           init A (slice (x g) jmin (jmax + 2))
                  (slice (y g) imin (imax + 2))
                  (MaskedArray (slice2 (data g) imin (imax + 2) jmin (jmax + 2)))
                  None None))))))"

subsection \<open>Well-formed grids\<close>

text \<open>
  The invariant of the data model: axes of at least two strictly increasing coordinates,
  and a sample array of shape \<open>(len(y), len(x))\<close>. The constructor checks the shape only.
\<close>

definition wf_grid :: "'f arith \<Rightarrow> 'f GridData \<Rightarrow> bool" where
  "wf_grid A g \<longleftrightarrow>
     wf_array2 (data g) \<and> shape (data g) = (length (y g), length (x g)) \<and>
     2 \<le> length (x g) \<and> 2 \<le> length (y g) \<and>
     sorted_wrt (flt A) (x g) \<and> sorted_wrt (flt A) (y g)"

subsection \<open>Properties of the operations\<close>

text \<open>
  The comparisons order the numbers that compare with themselves (all but NaN):
  \<open>a < b\<close> is \<open>a \<le> b\<close> without \<open>b \<le> a\<close>, \<open>\<le>\<close> is transitive, any two such numbers are
  comparable, and whatever takes part in a true comparison compares with itself.
\<close>

definition float_order :: "'f arith \<Rightarrow> bool" where
  "float_order A \<longleftrightarrow>
     (\<forall>a b. flt A a b \<longleftrightarrow> fle A a b \<and> \<not> fle A b a) \<and>
     (\<forall>a b c. fle A a b \<and> fle A b c \<longrightarrow> fle A a c) \<and>
     (\<forall>a b. fle A a a \<and> fle A b b \<longrightarrow> fle A a b \<or> fle A b a) \<and>
     (\<forall>a b. fle A a b \<longrightarrow> fle A a a \<and> fle A b b)"

text \<open>
  The index quotient \<open>(V - a) / (b - a)\<close> of a coordinate \<open>V \<ge> a\<close> on an axis with
  \<open>a < b\<close>: when \<^verbatim>\<open>int\<close> converts it, the result is not negative, and it does not
  decrease when \<open>V\<close> grows.
\<close>

definition index_nonneg :: "'f arith \<Rightarrow> bool" where
  "index_nonneg A \<longleftrightarrow>
     (\<forall>a b V k. fle A a V \<and> flt A a b
        \<and> fint A (fdiv A (fsub A V a) (fsub A b a)) = Converted k \<longrightarrow> 0 \<le> k)"

definition index_mono :: "'f arith \<Rightarrow> bool" where
  "index_mono A \<longleftrightarrow>
     (\<forall>a b V W k l. fle A a V \<and> fle A V W \<and> flt A a b
        \<and> fint A (fdiv A (fsub A V a) (fsub A b a)) = Converted k
        \<and> fint A (fdiv A (fsub A W a) (fsub A b a)) = Converted l \<longrightarrow> k \<le> l)"

subsection \<open>Notions used in the statements\<close>

text \<open>
  The stored sample at indices inside the array, without the bounds check; the
  expression of line 32 of the source on four numbers and two offsets; and what it means
  for a corner to be masked (reading it gives \<^verbatim>\<open>ma.masked\<close>) or unmasked (reading it
  gives a number).
\<close>

definition corner :: "'f GridData \<Rightarrow> int \<Rightarrow> int \<Rightarrow> 'f option" where
  "corner g k l = cells (data g) ! nat k ! nat l"

definition bilinear :: "'f arith \<Rightarrow> 'f \<Rightarrow> 'f \<Rightarrow> 'f \<Rightarrow> 'f \<Rightarrow> 'f \<Rightarrow> 'f \<Rightarrow> 'f" where
  "bilinear A q00 q01 q10 q11 ax ay =
     fadd A (fadd A (fadd A q00 (fmul A ax (fsub A q01 q00))) (fmul A ay (fsub A q10 q00)))
            (fmul A (fmul A ax ay) (fsub A (fsub A (fadd A q00 q11) q10) q01))"

definition unmasked :: "'f GridData \<Rightarrow> int \<Rightarrow> int \<Rightarrow> bool" where
  "unmasked g k l = (case grid_getitem g k l of Inr (Some v) \<Rightarrow> True | _ \<Rightarrow> False)"


definition cell_unmasked :: "'f GridData \<Rightarrow> int \<Rightarrow> int \<Rightarrow> bool" where
  "cell_unmasked g i j \<longleftrightarrow>
     unmasked g i j \<and> unmasked g i (j + 1) \<and> unmasked g (i + 1) j \<and> unmasked g (i + 1) (j + 1)"


subsection \<open>IEEE 754 binary64\<close>

text \<open>
  A double is a finite number, an infinity or NaN. A finite double is carried as the real
  number it denotes; the two zeros are one value (they compare equal, and \<^verbatim>\<open>int\<close> of
  both is 0).
\<close>

datatype dbl = Fin real | PInf | NInf | NaN

text \<open>
  Rounding to nearest, ties to even. \<open>pow2 e\<close> is \<open>2\<^sup>e\<close>; \<open>expo r\<close> is the exponent of the
  binade of \<open>r\<close>, not below that of the subnormal numbers; the spacing of the doubles
  around \<open>r\<close> is \<open>2\<close> to the power \<open>expo r - 52\<close>; \<open>rne\<close> rounds to the nearest integer,
  a tie to the even one; \<open>rval r\<close> is the nearest multiple of the spacing; and a result of
  magnitude \<open>2\<^sup>1\<^sup>0\<^sup>2\<^sup>4\<close> or more is an infinity.
\<close>

definition pow2 :: "int \<Rightarrow> real" where
  "pow2 e = (if 0 \<le> e then 2 ^ nat e else 1 / 2 ^ nat (- e))"

definition expo :: "real \<Rightarrow> int" where
  "expo r = max \<lfloor>log 2 \<bar>r\<bar>\<rfloor> (- 1022)"

definition rne :: "real \<Rightarrow> int" where
  "rne m = (let f = \<lfloor>m\<rfloor>; d = m - of_int f
            in if d < 1 / 2 then f else if 1 / 2 < d then f + 1
               else if even f then f else f + 1)"

definition rval :: "real \<Rightarrow> real" where
  "rval r = (if r = 0 then 0
             else of_int (rne (r / pow2 (expo r - 52))) * pow2 (expo r - 52))"

definition rnd :: "real \<Rightarrow> dbl" where
  "rnd r = (if pow2 1024 \<le> \<bar>rval r\<bar> then (if 0 < r then PInf else NInf) else Fin (rval r))"

text \<open>The operations: the exact result, rounded; the rules for infinities and NaN.\<close>

definition inf_of :: "bool \<Rightarrow> dbl" where
  "inf_of positive = (if positive then PInf else NInf)"

fun dneg :: "dbl \<Rightarrow> dbl" where
  "dneg (Fin a) = Fin (- a)"
| "dneg PInf = NInf"
| "dneg NInf = PInf"
| "dneg NaN = NaN"

fun dadd :: "dbl \<Rightarrow> dbl \<Rightarrow> dbl" where
  "dadd NaN _ = NaN"
| "dadd _ NaN = NaN"
| "dadd PInf NInf = NaN"
| "dadd NInf PInf = NaN"
| "dadd PInf _ = PInf"
| "dadd _ PInf = PInf"
| "dadd NInf _ = NInf"
| "dadd _ NInf = NInf"
| "dadd (Fin a) (Fin b) = rnd (a + b)"

definition dsub :: "dbl \<Rightarrow> dbl \<Rightarrow> dbl" where
  "dsub a b = dadd a (dneg b)"

fun dmul :: "dbl \<Rightarrow> dbl \<Rightarrow> dbl" where
  "dmul NaN _ = NaN"
| "dmul _ NaN = NaN"
| "dmul (Fin a) (Fin b) = rnd (a * b)"
| "dmul (Fin a) PInf = (if a = 0 then NaN else inf_of (0 < a))"
| "dmul (Fin a) NInf = (if a = 0 then NaN else inf_of (a < 0))"
| "dmul PInf (Fin b) = (if b = 0 then NaN else inf_of (0 < b))"
| "dmul NInf (Fin b) = (if b = 0 then NaN else inf_of (b < 0))"
| "dmul PInf PInf = PInf"
| "dmul PInf NInf = NInf"
| "dmul NInf PInf = NInf"
| "dmul NInf NInf = PInf"

fun ddiv :: "dbl \<Rightarrow> dbl \<Rightarrow> dbl" where
  "ddiv NaN _ = NaN"
| "ddiv _ NaN = NaN"
| "ddiv (Fin a) (Fin b) =
     (if b = 0 then (if a = 0 then NaN else inf_of (0 < a)) else rnd (a / b))"
| "ddiv (Fin a) _ = Fin 0"
| "ddiv PInf (Fin b) = inf_of (0 \<le> b)"
| "ddiv NInf (Fin b) = inf_of (b < 0)"
| "ddiv _ _ = NaN"

fun dle :: "dbl \<Rightarrow> dbl \<Rightarrow> bool" where
  "dle NaN _ = False"
| "dle _ NaN = False"
| "dle NInf _ = True"
| "dle _ PInf = True"
| "dle (Fin a) (Fin b) = (a \<le> b)"
| "dle _ _ = False"

fun dlt :: "dbl \<Rightarrow> dbl \<Rightarrow> bool" where
  "dlt NaN _ = False"
| "dlt _ NaN = False"
| "dlt PInf _ = False"
| "dlt _ NInf = False"
| "dlt NInf _ = True"
| "dlt _ PInf = True"
| "dlt (Fin a) (Fin b) = (a < b)"

fun deq :: "dbl \<Rightarrow> dbl \<Rightarrow> bool" where
  "deq (Fin a) (Fin b) = (a = b)"
| "deq PInf PInf = True"
| "deq NInf NInf = True"
| "deq _ _ = False"

text \<open>\<^verbatim>\<open>int\<close> of a float truncates towards zero.\<close>

definition py_int :: "real \<Rightarrow> int" where
  "py_int r = (if 0 \<le> r then \<lfloor>r\<rfloor> else \<lceil>r\<rceil>)"

fun dint :: "dbl \<Rightarrow> conversion" where
  "dint (Fin a) = Converted (py_int a)"
| "dint NaN = IsNaN"
| "dint _ = IsInfinite"

definition binary64 :: "dbl arith" where
  "binary64 = \<lparr>fle = dle, flt = dlt, feq = deq, fadd = dadd, fsub = dsub, fmul = dmul,
                fdiv = ddiv, fint = dint\<rparr>"

text \<open>
  A value of the type is a finite double when it is finite and rounding leaves it as it
  is; \<open>is_finite\<close> only asks for a finite value, as the result of an operation is.
\<close>

definition is_finite :: "dbl \<Rightarrow> bool" where
  "is_finite v = (case v of Fin r \<Rightarrow> True | _ \<Rightarrow> False)"

definition finite_double :: "dbl \<Rightarrow> bool" where
  "finite_double v = (case v of Fin r \<Rightarrow> rnd r = Fin r | _ \<Rightarrow> False)"

subsection \<open>Concrete grids\<close>

text \<open>The grid of the concrete scenario: \<open>x = [0, 1]\<close>, \<open>y = [0, 1]\<close>, values \<open>[[0, 1], [2, 3]]\<close>.\<close>

definition grid22 :: "dbl GridData" where
  "grid22 = \<lparr>x = [Fin 0, Fin 1], y = [Fin 0, Fin 1],
             data = \<lparr>shape = (2, 2),
                     cells = [[Some (Fin 0), Some (Fin 1)], [Some (Fin 2), Some (Fin 3)]]\<rparr>\<rparr>"

text \<open>
  The grid of the subset scenario, \<open>x = [0, 1, 2, 3]\<close>, \<open>y = [0, 1, 2]\<close>, all values one:
  with the sample at row 0, column 3 masked, with no sample masked, and the grid of the
  first three columns.
\<close>

definition grid43 :: "dbl GridData" where
  "grid43 = \<lparr>x = [Fin 0, Fin 1, Fin 2, Fin 3], y = [Fin 0, Fin 1, Fin 2],
             data = \<lparr>shape = (3, 4),
                     cells = [[Some (Fin 1), Some (Fin 1), Some (Fin 1), None],
                              [Some (Fin 1), Some (Fin 1), Some (Fin 1), Some (Fin 1)],
                              [Some (Fin 1), Some (Fin 1), Some (Fin 1), Some (Fin 1)]]\<rparr>\<rparr>"

definition ones43 :: "dbl GridData" where
  "ones43 = \<lparr>x = [Fin 0, Fin 1, Fin 2, Fin 3], y = [Fin 0, Fin 1, Fin 2],
             data = \<lparr>shape = (3, 4),
                     cells = [[Some (Fin 1), Some (Fin 1), Some (Fin 1), Some (Fin 1)],
                              [Some (Fin 1), Some (Fin 1), Some (Fin 1), Some (Fin 1)],
                              [Some (Fin 1), Some (Fin 1), Some (Fin 1), Some (Fin 1)]]\<rparr>\<rparr>"

definition ones33 :: "dbl GridData" where
  "ones33 = \<lparr>x = [Fin 0, Fin 1, Fin 2], y = [Fin 0, Fin 1, Fin 2],
             data = \<lparr>shape = (3, 3),
                     cells = [[Some (Fin 1), Some (Fin 1), Some (Fin 1)],
                              [Some (Fin 1), Some (Fin 1), Some (Fin 1)],
                              [Some (Fin 1), Some (Fin 1), Some (Fin 1)]]\<rparr>\<rparr>"

text \<open>
  The values of the concrete scenario as a plain array, a boolean mask that marks the
  sample at row 0, column 0, the masked array with that sample missing, and the plain
  array with the sentinel 9 in its place.
\<close>

definition plain22 :: "dbl array2" where
  "plain22 = \<lparr>shape = (2, 2), cells = [[Fin 0, Fin 1], [Fin 2, Fin 3]]\<rparr>"

definition mask22 :: "bool array2" where
  "mask22 = \<lparr>shape = (2, 2), cells = [[True, False], [False, False]]\<rparr>"

definition masked22 :: "dbl option array2" where
  "masked22 = \<lparr>shape = (2, 2), cells = [[None, Some (Fin 1)], [Some (Fin 2), Some (Fin 3)]]\<rparr>"

definition sentinel22 :: "dbl array2" where
  "sentinel22 = \<lparr>shape = (2, 2), cells = [[Fin 9, Fin 1], [Fin 2, Fin 3]]\<rparr>"

text \<open>
  A grid whose second \<open>x\<close> coordinate is the smallest positive double,
  \<open>x = [0, 2\<^sup>-\<^sup>1\<^sup>0\<^sup>7\<^sup>4, 1]\<close>, \<open>y = [0, 1]\<close>, all values one.
\<close>

definition grid_tiny :: "dbl GridData" where
  "grid_tiny = \<lparr>x = [Fin 0, Fin (pow2 (- 1074)), Fin 1], y = [Fin 0, Fin 1],
                data = \<lparr>shape = (2, 3),
                        cells = [[Some (Fin 1), Some (Fin 1), Some (Fin 1)],
                                 [Some (Fin 1), Some (Fin 1), Some (Fin 1)]]\<rparr>\<rparr>"

text \<open>The grid \<open>x = [0, 1]\<close>, \<open>y = [0, 1]\<close> with the values \<open>[[10\<^sup>1\<^sup>6, 1], [0, 0]]\<close>.\<close>

definition grid_big :: "dbl GridData" where
  "grid_big = \<lparr>x = [Fin 0, Fin 1], y = [Fin 0, Fin 1],
               data = \<lparr>shape = (2, 2),
                       cells = [[Some (Fin 10000000000000000), Some (Fin 1)],
                                [Some (Fin 0), Some (Fin 0)]]\<rparr>\<rparr>"

text \<open>A grid whose \<open>x\<close> axis is not increasing: \<open>x = [0, -1, 5]\<close>, \<open>y = [0, 1]\<close>.\<close>

definition grid_back :: "dbl GridData" where
  "grid_back = \<lparr>x = [Fin 0, Fin (- 1), Fin 5], y = [Fin 0, Fin 1],
                data = \<lparr>shape = (2, 3),
                        cells = [[Some (Fin 1), Some (Fin 1), Some (Fin 1)],
                                 [Some (Fin 1), Some (Fin 1), Some (Fin 1)]]\<rparr>\<rparr>"

text \<open>A grid whose \<open>x\<close> axis starts at 1: \<open>x = [1, 2]\<close>, \<open>y = [0, 1]\<close>, all values one.\<close>

definition grid_off :: "dbl GridData" where
  "grid_off = \<lparr>x = [Fin 1, Fin 2], y = [Fin 0, Fin 1],
               data = \<lparr>shape = (2, 2),
                       cells = [[Some (Fin 1), Some (Fin 1)], [Some (Fin 1), Some (Fin 1)]]\<rparr>\<rparr>"

text \<open>A grid whose \<open>x\<close> axis starts at -1: \<open>x = [-1, 0, 1, 2]\<close>, \<open>y = [0, 1]\<close>, all values one.\<close>

definition grid_neg :: "dbl GridData" where
  "grid_neg = \<lparr>x = [Fin (- 1), Fin 0, Fin 1, Fin 2], y = [Fin 0, Fin 1],
               data = \<lparr>shape = (2, 4),
                       cells = [[Some (Fin 1), Some (Fin 1), Some (Fin 1), Some (Fin 1)],
                                [Some (Fin 1), Some (Fin 1), Some (Fin 1), Some (Fin 1)]]\<rparr>\<rparr>"

text \<open>
  The grid \<open>x = [0, 1]\<close>, \<open>y = [0, 1]\<close> with the values \<open>[[2\<^sup>1\<^sup>0\<^sup>2\<^sup>3, -2\<^sup>1\<^sup>0\<^sup>2\<^sup>3], [0, 0]]\<close>.
\<close>

definition grid_wide :: "dbl GridData" where
  "grid_wide = \<lparr>x = [Fin 0, Fin 1], y = [Fin 0, Fin 1],
                data = \<lparr>shape = (2, 2),
                        cells = [[Some (Fin (pow2 1023)), Some (Fin (- pow2 1023))],
                                 [Some (Fin 0), Some (Fin 0)]]\<rparr>\<rparr>"

section \<open>Basic facts\<close>

lemma getitem_nat: "k < length a \<Longrightarrow> getitem a (int k) = Inr (a ! k)"
  by (simp add: getitem_def)

lemma getitem_0: "a \<noteq> [] \<Longrightarrow> getitem a 0 = Inr (a ! 0)"
  by (simp add: getitem_def)

lemma getitem_1: "2 \<le> length a \<Longrightarrow> getitem a 1 = Inr (a ! 1)"
  by (simp add: getitem_def)

lemma getitem_last: "a \<noteq> [] \<Longrightarrow> getitem a (- 1) = Inr (last a)"
  by (cases a rule: rev_cases) (simp_all add: getitem_def nth_append)

lemma getitem_error: "getitem a k = Inl e \<Longrightarrow> e = IndexError"
  by (simp add: getitem_def Let_def split: if_splits)

lemma getitem_Inr_length: "getitem a k = Inr v \<Longrightarrow> - int (length a) \<le> k \<and> k < int (length a)"
  by (simp add: getitem_def Let_def split: if_splits)

lemma getitem2_error: "getitem2 a k l = Inl e \<Longrightarrow> e = IndexError"
  by (simp add: getitem2_def Let_def split: if_splits)

lemma ebind_Inl_cases:
  assumes "ebind m f = Inl e"
  obtains "m = Inl e" | v where "m = Inr v" "f v = Inl e"
  using assms by (cases m) (simp_all add: ebind_def)

lemma ebind_Inr_cases:
  assumes "ebind m f = Inr r"
  obtains v where "m = Inr v" "f v = Inr r"
  using assms by (cases m) (simp_all add: ebind_def)

lemma contains_nonempty:
  "a \<noteq> [] \<Longrightarrow> contains A a V = Inr (fle A (a ! 0) V \<and> fle A V (last a))"
  by (simp add: contains_def getitem_0 getitem_last ebind_def)

lemma contains_error: "contains A a V = Inl e \<Longrightarrow> e = IndexError"
  by (auto simp add: contains_def elim!: ebind_Inl_cases dest: getitem_error split: if_splits)

lemma contains_Inr_nonempty: "contains A a V = Inr b \<Longrightarrow> a \<noteq> []"
  by (auto simp add: contains_def getitem_def ebind_def)

lemma cell_of_two:
  assumes "2 \<le> length a"
  shows "cell_of A a V =
     (case fint A (fdiv A (fsub A V (a ! 0)) (fsub A (a ! 1) (a ! 0))) of
        Converted k \<Rightarrow> Inr k | IsInfinite \<Rightarrow> Inl OverflowError | IsNaN \<Rightarrow> Inl NanConversion)"
proof -
  from assms have ne: "a \<noteq> []" by auto
  show ?thesis by (simp add: cell_of_def getitem_0 [OF ne] getitem_1 [OF assms] ebind_def)
qed

lemma cell_of_Inr:
  assumes "cell_of A a V = Inr k"
  shows "2 \<le> length a"
    and "fint A (fdiv A (fsub A V (a ! 0)) (fsub A (a ! 1) (a ! 0))) = Converted k"
proof -
  from assms obtain a0 a1 where g: "getitem a 0 = Inr a0" "getitem a 1 = Inr a1"
    unfolding cell_of_def by (auto elim!: ebind_Inr_cases)
  from getitem_Inr_length [OF g(2)] show l: "2 \<le> length a" by simp
  from assms show "fint A (fdiv A (fsub A V (a ! 0)) (fsub A (a ! 1) (a ! 0))) = Converted k"
    unfolding cell_of_two [OF l] by (simp split: conversion.splits)
qed

lemma cell_of_error:
  "cell_of A a V = Inl e \<Longrightarrow> e = IndexError \<or> e = OverflowError \<or> e = NanConversion"
  by (auto simp add: cell_of_def elim!: ebind_Inl_cases dest: getitem_error
      split: conversion.splits)

text \<open>What a returned cell tells about the point and the axes.\<close>

lemma index_of_point_Inr:
  assumes "index_of_point A xs ys X Y = Inr (i, j)"
  shows "2 \<le> length xs" and "2 \<le> length ys"
    and "fle A (xs ! 0) X" and "fle A X (last xs)" and "fle A (ys ! 0) Y" and "fle A Y (last ys)"
    and "\<exists>k. fint A (fdiv A (fsub A Y (ys ! 0)) (fsub A (ys ! 1) (ys ! 0))) = Converted k
           \<and> i = min k (int (length ys) - 2)"
    and "\<exists>l. fint A (fdiv A (fsub A X (xs ! 0)) (fsub A (xs ! 1) (xs ! 0))) = Converted l
           \<and> j = min l (int (length xs) - 2)"
    and "i + 1 < int (length ys)" and "j + 1 < int (length xs)"
proof -
  from assms obtain inx where cx: "contains A xs X = Inr inx"
    unfolding index_of_point_def by (auto elim!: ebind_Inr_cases)
  from assms cx obtain inside where cy: "(if inx then contains A ys Y else Inr False) = Inr inside"
    unfolding index_of_point_def by (auto elim!: ebind_Inr_cases)
  from assms cx cy have ins: "inside"
    unfolding index_of_point_def by (auto simp add: ebind_def split: if_splits)
  from cy ins have inx: "inx" and cy': "contains A ys Y = Inr True" by (auto split: if_splits)
  from assms cx cy ins obtain k l where k: "cell_of A ys Y = Inr k" and l: "cell_of A xs X = Inr l"
    and ij: "i = min k (int (length ys) - 2)" "j = min l (int (length xs) - 2)"
    unfolding index_of_point_def by (auto simp add: ebind_def split: sum.splits)
  note ck = cell_of_Inr [OF k] and cl = cell_of_Inr [OF l]
  show "2 \<le> length xs" "2 \<le> length ys" by (rule cl(1), rule ck(1))
  then have ne: "xs \<noteq> []" "ys \<noteq> []" by auto
  from cx inx show "fle A (xs ! 0) X" "fle A X (last xs)"
    by (simp_all add: contains_nonempty [OF ne(1)])
  from cy' show "fle A (ys ! 0) Y" "fle A Y (last ys)"
    by (simp_all add: contains_nonempty [OF ne(2)])
  from ck(2) ij(1) show "\<exists>k. fint A (fdiv A (fsub A Y (ys ! 0)) (fsub A (ys ! 1) (ys ! 0)))
      = Converted k \<and> i = min k (int (length ys) - 2)" by blast
  from cl(2) ij(2) show "\<exists>l. fint A (fdiv A (fsub A X (xs ! 0)) (fsub A (xs ! 1) (xs ! 0)))
      = Converted l \<and> j = min l (int (length xs) - 2)" by blast
  show "i + 1 < int (length ys)" "j + 1 < int (length xs)" using ij by simp_all
qed

lemma index_of_point_inside:
  assumes "2 \<le> length xs" "2 \<le> length ys"
    and "fle A (xs ! 0) X" "fle A X (last xs)" "fle A (ys ! 0) Y" "fle A Y (last ys)"
    and "fint A (fdiv A (fsub A Y (ys ! 0)) (fsub A (ys ! 1) (ys ! 0))) = Converted k"
    and "fint A (fdiv A (fsub A X (xs ! 0)) (fsub A (xs ! 1) (xs ! 0))) = Converted l"
  shows "index_of_point A xs ys X Y = Inr (min k (int (length ys) - 2), min l (int (length xs) - 2))"
proof -
  from assms have ne: "xs \<noteq> []" "ys \<noteq> []" by auto
  show ?thesis
    using assms(3-8)
    by (simp add: index_of_point_def contains_nonempty [OF ne(1)] contains_nonempty [OF ne(2)]
        cell_of_two [OF assms(1)] cell_of_two [OF assms(2)] ebind_def)
qed

lemma index_of_point_outside:
  assumes "xs \<noteq> []" "ys \<noteq> []"
    and "\<not> (fle A (xs ! 0) X \<and> fle A X (last xs) \<and> fle A (ys ! 0) Y \<and> fle A Y (last ys))"
  shows "index_of_point A xs ys X Y = Inl OutOfDomain"
  using assms by (auto simp add: index_of_point_def contains_nonempty ebind_def)

lemma index_of_point_OutOfDomain_iff:
  assumes "xs \<noteq> []" "ys \<noteq> []"
  shows "index_of_point A xs ys X Y = Inl OutOfDomain \<longleftrightarrow>
     \<not> (fle A (xs ! 0) X \<and> fle A X (last xs) \<and> fle A (ys ! 0) Y \<and> fle A Y (last ys))"
proof
  assume "\<not> (fle A (xs ! 0) X \<and> fle A X (last xs) \<and> fle A (ys ! 0) Y \<and> fle A Y (last ys))"
  then show "index_of_point A xs ys X Y = Inl OutOfDomain"
    by (rule index_of_point_outside [OF assms])
next
  assume a: "index_of_point A xs ys X Y = Inl OutOfDomain"
  show "\<not> (fle A (xs ! 0) X \<and> fle A X (last xs) \<and> fle A (ys ! 0) Y \<and> fle A Y (last ys))"
  proof
    assume d: "fle A (xs ! 0) X \<and> fle A X (last xs) \<and> fle A (ys ! 0) Y \<and> fle A Y (last ys)"
    from a d show False
      by (auto simp add: index_of_point_def contains_nonempty [OF assms(1)]
          contains_nonempty [OF assms(2)] ebind_def
          dest: cell_of_error split: sum.splits)
  qed
qed

lemma index_of_point_inside_cases:
  assumes "2 \<le> length xs" "2 \<le> length ys"
    and "fle A (xs ! 0) X" "fle A X (last xs)" "fle A (ys ! 0) Y" "fle A Y (last ys)"
  shows "(\<exists>i j. index_of_point A xs ys X Y = Inr (i, j))
       \<or> index_of_point A xs ys X Y = Inl OverflowError
       \<or> index_of_point A xs ys X Y = Inl NanConversion"
proof -
  from assms have ne: "xs \<noteq> []" "ys \<noteq> []" by auto
  show ?thesis
    using assms(3-6)
    by (simp add: index_of_point_def contains_nonempty [OF ne(1)] contains_nonempty [OF ne(2)]
        cell_of_two [OF assms(1)] cell_of_two [OF assms(2)] ebind_def
        split: conversion.splits)
qed

lemma sorted_wrt_first_two: "sorted_wrt P a \<Longrightarrow> 2 \<le> length a \<Longrightarrow> P (a ! 0) (a ! 1)"
  by (simp add: sorted_wrt_iff_nth_less)

lemma sorted_wrt_first_last:
  assumes "sorted_wrt P a" "2 \<le> length a"
  shows "P (a ! 0) (last a)"
proof -
  from assms(2) have "a \<noteq> []" by auto
  then have "last a = a ! (length a - 1)" by (rule last_conv_nth)
  moreover have "P (a ! 0) (a ! (length a - 1))"
    using assms sorted_wrt_nth_less [of P a 0 "length a - 1"] by auto
  ultimately show ?thesis by simp
qed

lemma wf_grid_axes:
  assumes "wf_grid A g"
  shows "2 \<le> length (x g)" "2 \<le> length (y g)"
    "flt A (x g ! 0) (x g ! 1)" "flt A (y g ! 0) (y g ! 1)"
    "flt A (x g ! 0) (last (x g))" "flt A (y g ! 0) (last (y g))"
    "shape (data g) = (length (y g), length (x g))"
  using assms sorted_wrt_first_two [of "flt A" "x g"] sorted_wrt_first_two [of "flt A" "y g"]
    sorted_wrt_first_last [of "flt A" "x g"] sorted_wrt_first_last [of "flt A" "y g"]
  by (simp_all add: wf_grid_def)

lemma index_nonnegD:
  assumes "index_nonneg A" "fle A a V" "flt A a b"
    "fint A (fdiv A (fsub A V a) (fsub A b a)) = Converted k"
  shows "0 \<le> k"
  using assms(1) [unfolded index_nonneg_def, rule_format, of a V b k] assms(2-4) by simp

lemma index_monoD:
  assumes "index_mono A" "fle A a V" "fle A V W" "flt A a b"
    "fint A (fdiv A (fsub A V a) (fsub A b a)) = Converted k"
    "fint A (fdiv A (fsub A W a) (fsub A b a)) = Converted l"
  shows "k \<le> l"
  using assms(1) [unfolded index_mono_def, rule_format, of a V W b k l] assms(2-6) by simp

text \<open>The cell of a point on a grid with increasing axes is inside the array.\<close>

lemma index_of_point_bounds:
  assumes "index_nonneg A" "flt A (xs ! 0) (xs ! 1)" "flt A (ys ! 0) (ys ! 1)"
    and "index_of_point A xs ys X Y = Inr (i, j)"
  shows "0 \<le> i" "i + 1 < int (length ys)" "0 \<le> j" "j + 1 < int (length xs)"
proof -
  note r = index_of_point_Inr [OF assms(4)]
  from r(7) obtain k where k: "fint A (fdiv A (fsub A Y (ys ! 0)) (fsub A (ys ! 1) (ys ! 0)))
      = Converted k" "i = min k (int (length ys) - 2)" by blast
  from r(8) obtain l where l: "fint A (fdiv A (fsub A X (xs ! 0)) (fsub A (xs ! 1) (xs ! 0)))
      = Converted l" "j = min l (int (length xs) - 2)" by blast
  have "0 \<le> k" by (rule index_nonnegD [OF assms(1) r(5) assms(3) k(1)])
  then show "0 \<le> i" using k(2) r(2) by simp
  have "0 \<le> l" by (rule index_nonnegD [OF assms(1) r(3) assms(2) l(1)])
  then show "0 \<le> j" using l(2) r(1) by simp
  show "i + 1 < int (length ys)" "j + 1 < int (length xs)" by (rule r(9), rule r(10))
qed

lemma getitem2_in_range:
  assumes "shape q = (ny, nx)" "0 \<le> k" "k < int ny" "0 \<le> l" "l < int nx"
  shows "getitem2 q k l = Inr (cells q ! nat k ! nat l)"
  using assms by (simp add: getitem2_def)

lemma is_missing_in_range:
  assumes "shape q = (ny, nx)" "0 \<le> i" "i + 1 < int ny" "0 \<le> j" "j + 1 < int nx"
  shows "is_missing q i j = Inr (cells q ! nat i ! nat j = None \<or> cells q ! nat i ! nat (j + 1) = None
     \<or> cells q ! nat (i + 1) ! nat j = None \<or> cells q ! nat (i + 1) ! nat (j + 1) = None)"
proof -
  have "getitem2 q i j = Inr (cells q ! nat i ! nat j)"
    "getitem2 q i (j + 1) = Inr (cells q ! nat i ! nat (j + 1))"
    "getitem2 q (i + 1) j = Inr (cells q ! nat (i + 1) ! nat j)"
    "getitem2 q (i + 1) (j + 1) = Inr (cells q ! nat (i + 1) ! nat (j + 1))"
    using assms by (simp_all add: getitem2_in_range [OF assms(1)])
  then show ?thesis by (simp add: is_missing_def ebind_def)
qed

lemma is_missing_error: "is_missing q i j = Inl e \<Longrightarrow> e = IndexError"
  unfolding is_missing_def
  by (elim ebind_Inl_cases) (auto dest: getitem2_error)

text \<open>
  A resolved cell: the point has passed the domain check, the index computation has
  returned \<open>(i, j)\<close>, and the cell is inside the array.
\<close>

lemma resolved_cell:
  assumes "wf_grid A g" "index_nonneg A" "index_of_point A (x g) (y g) X Y = Inr (i, j)"
  shows "0 \<le> i" "i + 1 < int (length (y g))" "0 \<le> j" "j + 1 < int (length (x g))"
  using index_of_point_bounds [OF assms(2) wf_grid_axes(3,4) [OF assms(1)] assms(3)] .

lemma corner_reads:
  assumes "shape (data g) = (length (y g), length (x g))"
    "0 \<le> i" "i + 1 < int (length (y g))" "0 \<le> j" "j + 1 < int (length (x g))"
  shows "grid_getitem g i j = Inr (corner g i j)"
    "grid_getitem g i (j + 1) = Inr (corner g i (j + 1))"
    "grid_getitem g (i + 1) j = Inr (corner g (i + 1) j)"
    "grid_getitem g (i + 1) (j + 1) = Inr (corner g (i + 1) (j + 1))"
  using assms(2-5) by (simp_all add: grid_getitem_def corner_def getitem2_in_range [OF assms(1)])

lemma cell_unmasked_iff:
  assumes "shape (data g) = (length (y g), length (x g))"
    "0 \<le> i" "i + 1 < int (length (y g))" "0 \<le> j" "j + 1 < int (length (x g))"
  shows "cell_unmasked g i j \<longleftrightarrow> \<not> (corner g i j = None \<or> corner g i (j + 1) = None
     \<or> corner g (i + 1) j = None \<or> corner g (i + 1) (j + 1) = None)"
  by (auto simp add: cell_unmasked_def unmasked_def corner_reads [OF assms] split: option.splits)


lemma is_masked_cell:
  assumes "shape (data g) = (length (y g), length (x g))"
    and "index_of_point A (x g) (y g) X Y = Inr (i, j)" and "0 \<le> i" "0 \<le> j"
  shows "is_masked A g (X, Y) = Inr (corner g i j = None \<or> corner g i (j + 1) = None
     \<or> corner g (i + 1) j = None \<or> corner g (i + 1) (j + 1) = None)"
proof -
  note r = index_of_point_Inr [OF assms(2)]
  show ?thesis
    by (simp add: is_masked_def assms(2) ebind_def corner_def
        is_missing_in_range [OF assms(1,3) r(9) assms(4) r(10)])
qed

text \<open>
  The evaluation on a resolved cell inside the array: the missing-data error, or the
  expression of the source on the four corners.
\<close>

lemma evaluate_cell:
  assumes "shape (data g) = (length (y g), length (x g))"
    and "index_of_point A (x g) (y g) X Y = Inr (i, j)" and "0 \<le> i" "0 \<le> j"
  shows "evaluate A g (X, Y) =
     (if corner g i j = None \<or> corner g i (j + 1) = None
         \<or> corner g (i + 1) j = None \<or> corner g (i + 1) (j + 1) = None
      then Inl InsufficientData
      else Inr (Some (bilinear A (the (corner g i j)) (the (corner g i (j + 1)))
                   (the (corner g (i + 1) j)) (the (corner g (i + 1) (j + 1)))
                   (fdiv A (fsub A X (x g ! nat j)) (fsub A (x g ! 1) (x g ! 0)))
                   (fdiv A (fsub A Y (y g ! nat i)) (fsub A (y g ! 1) (y g ! 0))))))"
proof -
  note r = index_of_point_Inr [OF assms(2)]
  from r(1,2) have ne: "x g \<noteq> []" "y g \<noteq> []" by auto
  have gx: "getitem (x g) j = Inr (x g ! nat j)" "getitem (y g) i = Inr (y g ! nat i)"
    using assms(3,4) r(9,10) by (simp_all add: getitem_def)
  note rd = corner_reads [OF assms(1,3) r(9) assms(4) r(10)]
  show ?thesis
    by (auto simp add: evaluate_def bilinear_interp_def assms(2) ebind_def corner_def [symmetric]
        is_missing_in_range [OF assms(1,3) r(9) assms(4) r(10)] gx rd
        getitem_0 [OF ne(1)] getitem_0 [OF ne(2)]
        getitem_1 [OF r(1)] getitem_1 [OF r(2)] lift2_def bilinear_def)
qed

lemma bilinear_interp_error:
  assumes "index_of_point A (x q) (y q) X Y = Inr (i, j)" and "bilinear_interp A q X Y = Inl e"
  shows "e = InsufficientData \<or> e = IndexError"
  using assms(2) unfolding bilinear_interp_def grid_getitem_def
  by (auto simp add: assms(1) Let_def elim!: ebind_Inl_cases
      dest: getitem2_error getitem_error is_missing_error split: if_splits)

lemma bilinear_interp_OutOfDomain:
  "bilinear_interp A q X Y = Inl OutOfDomain \<longleftrightarrow>
     index_of_point A (x q) (y q) X Y = Inl OutOfDomain"
proof (cases "index_of_point A (x q) (y q) X Y")
  case (Inl e)
  then show ?thesis by (simp add: bilinear_interp_def ebind_def)
next
  case (Inr c)
  then have "index_of_point A (x q) (y q) X Y = Inr (fst c, snd c)" by simp
  from bilinear_interp_error [OF this] Inr show ?thesis by auto
qed

lemma is_masked_OutOfDomain:
  "is_masked A g (X, Y) = Inl OutOfDomain \<longleftrightarrow>
     index_of_point A (x g) (y g) X Y = Inl OutOfDomain"
  by (cases "index_of_point A (x g) (y g) X Y")
     (auto simp add: is_masked_def ebind_def dest: is_missing_error split: prod.splits)

lemma evaluate_index_error:
  "index_of_point A (x g) (y g) X Y = Inl e \<Longrightarrow>
     evaluate A g (X, Y) = Inl e \<and> is_masked A g (X, Y) = Inl e"
  by (simp add: evaluate_def bilinear_interp_def is_masked_def ebind_def)

lemma slice_bound_le: "slice_bound n k \<le> n"
  by (auto simp add: slice_bound_def max_def)

lemma slice_bound_nat: "0 \<le> k \<Longrightarrow> k \<le> int n \<Longrightarrow> slice_bound n k = nat k"
  by (simp add: slice_bound_def)

lemma length_slice:
  "length (slice a lo hi) = slice_bound (length a) hi - slice_bound (length a) lo"
  using slice_bound_le [of "length a" hi] by (simp add: slice_def Let_def)

lemma slice_in_range:
  assumes "0 \<le> lo" "lo \<le> hi" "hi \<le> int (length a)"
  shows "slice a lo hi = take (nat (hi - lo)) (drop (nat lo) a)"
    and "length (slice a lo hi) = nat (hi - lo)"
    and "k < nat (hi - lo) \<Longrightarrow> slice a lo hi ! k = a ! (nat lo + k)"
proof -
  have b: "slice_bound (length a) lo = nat lo" "slice_bound (length a) hi = nat hi"
    using assms by (simp_all add: slice_bound_nat)
  have d: "nat hi - nat lo = nat (hi - lo)" using assms by simp
  show s: "slice a lo hi = take (nat (hi - lo)) (drop (nat lo) a)"
    by (simp add: slice_def b d)
  show "length (slice a lo hi) = nat (hi - lo)"
    using assms by (simp add: length_slice b d)
  show "k < nat (hi - lo) \<Longrightarrow> slice a lo hi ! k = a ! (nat lo + k)"
    using assms by (simp add: s)
qed

lemma sorted_wrt_slice: "sorted_wrt P a \<Longrightarrow> sorted_wrt P (slice a lo hi)"
  by (simp add: slice_def Let_def sorted_wrt_take sorted_wrt_drop)

lemma set_slice: "set (slice a lo hi) \<subseteq> set a"
  unfolding slice_def Let_def
  by (meson set_take_subset set_drop_subset subset_trans)

lemma wf_array2_slice2:
  assumes "wf_array2 a"
  shows "wf_array2 (slice2 a rlo rhi clo chi)"
proof -
  have "length r = snd (shape a)" if "r \<in> set (slice (cells a) rlo rhi)" for r
    using that set_slice [of "cells a" rlo rhi] assms by (auto simp add: wf_array2_def)
  then show ?thesis
    using assms by (simp add: wf_array2_def slice2_def length_slice)
qed

lemma slice2_cell:
  assumes "wf_array2 a" "0 \<le> rlo" "rlo \<le> rhi" "rhi \<le> int (fst (shape a))"
    "0 \<le> clo" "clo \<le> chi" "chi \<le> int (snd (shape a))"
    "k < nat (rhi - rlo)" "l < nat (chi - clo)"
  shows "cells (slice2 a rlo rhi clo chi) ! k ! l = cells a ! (nat rlo + k) ! (nat clo + l)"
proof -
  from assms(1) have len: "length (cells a) = fst (shape a)" by (simp add: wf_array2_def)
  have r: "rhi \<le> int (length (cells a))" using assms(4) len by simp
  note sr = slice_in_range [OF assms(2,3) r]
  have "nat rlo + k < length (cells a)" using assms(2,3,8) r by linarith
  then have "length (cells a ! (nat rlo + k)) = snd (shape a)"
    using assms(1) by (simp add: wf_array2_def)
  then have c: "chi \<le> int (length (cells a ! (nat rlo + k)))" using assms(7) by simp
  note sc = slice_in_range [OF assms(5,6) c]
  have "cells (slice2 a rlo rhi clo chi) ! k = slice (cells a ! (nat rlo + k)) clo chi"
    using assms(8) sr(2) sr(3) [OF assms(8)] by (simp add: slice2_def)
  then show ?thesis using sc(3) [OF assms(9)] by simp
qed

lemma init_MaskedArray:
  assumes "shape a = (length ys, length xs)"
  shows "init A xs ys (MaskedArray a) None None = Inr \<lparr>x = xs, y = ys, data = a\<rparr>"
  using assms by (simp add: init_def)

text \<open>
  \<open>subset\<close> on a grid whose data has the shape of its axes: the two index computations,
  and then the slices; the constructor does not fail.
\<close>

lemma subset_unfold:
  assumes "x g \<noteq> []" "y g \<noteq> []" "shape (data g) = (length (y g), length (x g))"
  shows "subset A g xmin ymin xmax ymax =
     ebind (index_of_point A (x g) (y g) (pymax A xmin (x g ! 0)) (pymax A ymin (y g ! 0)))
       (\<lambda>(imin, jmin).
     ebind (index_of_point A (x g) (y g) (pymin A xmax (last (x g))) (pymin A ymax (last (y g))))
       (\<lambda>(imax, jmax).
         Inr \<lparr>x = slice (x g) jmin (jmax + 2), y = slice (y g) imin (imax + 2),
              data = slice2 (data g) imin (imax + 2) jmin (jmax + 2)\<rparr>))"
proof -
  have "shape (slice2 (data g) imin (imax + 2) jmin (jmax + 2))
      = (length (slice (y g) imin (imax + 2)), length (slice (x g) jmin (jmax + 2)))"
    for imin imax jmin jmax
    by (simp add: slice2_def length_slice assms(3))
  note i = init_MaskedArray [OF this]
  show ?thesis
    by (simp add: subset_def getitem_0 [OF assms(1)] getitem_0 [OF assms(2)]
        getitem_last [OF assms(1)] getitem_last [OF assms(2)] ebind_def Let_def i
        cong: sum.case_cong)
qed

lemma subset_inside:
  assumes "x g \<noteq> []" "y g \<noteq> []" "shape (data g) = (length (y g), length (x g))"
    and "index_of_point A (x g) (y g) (pymax A xmin (x g ! 0)) (pymax A ymin (y g ! 0))
           = Inr (imin, jmin)"
    and "index_of_point A (x g) (y g) (pymin A xmax (last (x g))) (pymin A ymax (last (y g)))
           = Inr (imax, jmax)"
  shows "subset A g xmin ymin xmax ymax =
     Inr \<lparr>x = slice (x g) jmin (jmax + 2), y = slice (y g) imin (imax + 2),
          data = slice2 (data g) imin (imax + 2) jmin (jmax + 2)\<rparr>"
  by (simp add: subset_unfold [OF assms(1,2,3)] assms(4,5) ebind_def)

lemma subset_first_error:
  assumes "x g \<noteq> []" "y g \<noteq> []" "shape (data g) = (length (y g), length (x g))"
    and "index_of_point A (x g) (y g) (pymax A xmin (x g ! 0)) (pymax A ymin (y g ! 0)) = Inl e"
  shows "subset A g xmin ymin xmax ymax = Inl e"
  by (simp add: subset_unfold [OF assms(1,2,3)] assms(4) ebind_def)

lemma subset_second_error:
  assumes "x g \<noteq> []" "y g \<noteq> []" "shape (data g) = (length (y g), length (x g))"
    and "index_of_point A (x g) (y g) (pymax A xmin (x g ! 0)) (pymax A ymin (y g ! 0))
           = Inr (imin, jmin)"
    and "index_of_point A (x g) (y g) (pymin A xmax (last (x g))) (pymin A ymax (last (y g)))
           = Inl e"
  shows "subset A g xmin ymin xmax ymax = Inl e"
  by (simp add: subset_unfold [OF assms(1,2,3)] assms(4,5) ebind_def)

lemma sub_grid_wf:
  assumes "wf_grid A g" "0 \<le> imin" "imin \<le> imax" "imax + 2 \<le> int (length (y g))"
    "0 \<le> jmin" "jmin \<le> jmax" "jmax + 2 \<le> int (length (x g))"
  shows "wf_grid A \<lparr>x = slice (x g) jmin (jmax + 2), y = slice (y g) imin (imax + 2),
                    data = slice2 (data g) imin (imax + 2) jmin (jmax + 2)\<rparr>"
proof -
  note ax = wf_grid_axes [OF assms(1)]
  have ly: "imin \<le> imax + 2" and lx: "jmin \<le> jmax + 2" using assms(3,6) by simp_all
  note sy = slice_in_range [OF assms(2) ly assms(4)] and sx = slice_in_range [OF assms(5) lx assms(7)]
  have "wf_array2 (slice2 (data g) imin (imax + 2) jmin (jmax + 2))"
    using assms(1) by (simp add: wf_grid_def wf_array2_slice2)
  moreover have "shape (slice2 (data g) imin (imax + 2) jmin (jmax + 2))
      = (length (slice (y g) imin (imax + 2)), length (slice (x g) jmin (jmax + 2)))"
    by (simp add: slice2_def length_slice ax(7))
  moreover have "2 \<le> length (slice (x g) jmin (jmax + 2))" "2 \<le> length (slice (y g) imin (imax + 2))"
    using assms(3,6) by (simp_all add: sx(2) sy(2))
  moreover have "sorted_wrt (flt A) (slice (x g) jmin (jmax + 2))"
    "sorted_wrt (flt A) (slice (y g) imin (imax + 2))"
    using assms(1) by (simp_all add: wf_grid_def sorted_wrt_slice)
  ultimately show ?thesis by (simp add: wf_grid_def)
qed

lemma sub_grid_getitem:
  assumes "wf_grid A g" "0 \<le> imin" "imin \<le> imax" "imax + 2 \<le> int (length (y g))"
    "0 \<le> jmin" "jmin \<le> jmax" "jmax + 2 \<le> int (length (x g))"
    "0 \<le> k" "k < imax + 2 - imin" "0 \<le> l" "l < jmax + 2 - jmin"
  shows "getitem2 (slice2 (data g) imin (imax + 2) jmin (jmax + 2)) k l
       = getitem2 (data g) (imin + k) (jmin + l)"
proof -
  note ax = wf_grid_axes [OF assms(1)]
  from assms(1) have wa: "wf_array2 (data g)" by (simp add: wf_grid_def)
  have ly: "imin \<le> imax + 2" and lx: "jmin \<le> jmax + 2" using assms(3,6) by simp_all
  have hy: "imax + 2 \<le> int (fst (shape (data g)))" and hx: "jmax + 2 \<le> int (snd (shape (data g)))"
    using assms(4,7) ax(7) by simp_all
  have kl: "nat k < nat (imax + 2 - imin)" "nat l < nat (jmax + 2 - jmin)"
    using assms(8-11) by simp_all
  have sh: "shape (slice2 (data g) imin (imax + 2) jmin (jmax + 2))
      = (nat (imax + 2 - imin), nat (jmax + 2 - jmin))"
    using assms(2-7) ly lx by (simp add: slice2_def ax(7) slice_bound_nat nat_diff_distrib)
  have "getitem2 (slice2 (data g) imin (imax + 2) jmin (jmax + 2)) k l
      = Inr (cells (slice2 (data g) imin (imax + 2) jmin (jmax + 2)) ! nat k ! nat l)"
    using assms(8-11) by (intro getitem2_in_range [OF sh]) simp_all
  also have "\<dots> = Inr (cells (data g) ! (nat imin + nat k) ! (nat jmin + nat l))"
    by (simp add: slice2_cell [OF wa assms(2) ly hy assms(5) lx hx kl])
  also have "\<dots> = getitem2 (data g) (imin + k) (jmin + l)"
    using assms(2-11) by (simp add: getitem2_in_range [OF ax(7)] nat_add_distrib)
  finally show ?thesis .
qed

lemma sub_grid_corner:
  assumes "wf_grid A g" "0 \<le> imin" "imin \<le> imax" "imax + 2 \<le> int (length (y g))"
    "0 \<le> jmin" "jmin \<le> jmax" "jmax + 2 \<le> int (length (x g))"
    "0 \<le> k" "k < imax + 2 - imin" "0 \<le> l" "l < jmax + 2 - jmin"
  shows "corner \<lparr>x = xs, y = ys, data = slice2 (data g) imin (imax + 2) jmin (jmax + 2)\<rparr> k l
       = corner g (imin + k) (jmin + l)"
proof -
  note ax = wf_grid_axes [OF assms(1)]
  from assms(1) have wa: "wf_array2 (data g)" by (simp add: wf_grid_def)
  have ly: "imin \<le> imax + 2" and lx: "jmin \<le> jmax + 2" using assms(3,6) by simp_all
  have hy: "imax + 2 \<le> int (fst (shape (data g)))" and hx: "jmax + 2 \<le> int (snd (shape (data g)))"
    using assms(4,7) ax(7) by simp_all
  have kl: "nat k < nat (imax + 2 - imin)" "nat l < nat (jmax + 2 - jmin)"
    using assms(8-11) by simp_all
  show ?thesis
    using assms(2,5,8,10)
    by (simp add: corner_def slice2_cell [OF wa assms(2) ly hy assms(5) lx hx kl] nat_add_distrib)
qed

text \<open>The constructor, and grids that read alike.\<close>

lemma with_mask_error: "with_mask a m = Inl e \<Longrightarrow> e = MaskError"
  by (simp add: with_mask_def fit_mask_def ebind_def split: if_splits)

lemma with_mask_same_shape:
  "shape m = shape a \<Longrightarrow>
   with_mask a m = Inr \<lparr>shape = shape a,
     cells = map2 (map2 (\<lambda>u b. if b then None else Some u)) (cells a) (cells m)\<rparr>"
  by (simp add: with_mask_def fit_mask_def ebind_def)

lemma getitem2_cong:
  assumes "shape a = shape b"
    and "\<And>k l. k < fst (shape a) \<Longrightarrow> l < snd (shape a) \<Longrightarrow> cells a ! k ! l = cells b ! k ! l"
  shows "getitem2 a k l = getitem2 b k l"
  using assms by (auto simp add: getitem2_def Let_def)

lemma evaluate_cong:
  assumes "x g = x g'" "y g = y g'" "\<And>k l. getitem2 (data g) k l = getitem2 (data g') k l"
  shows "evaluate A g p = evaluate A g' p" "is_masked A g p = is_masked A g' p"
  by (simp_all add: evaluate_def is_masked_def bilinear_interp_def is_missing_def
      grid_getitem_def assms cong: if_cong)

lemma nth_map2_rows:
  assumes "k < length as" "k < length bs" "l < length (as ! k)" "l < length (bs ! k)"
  shows "map2 (map2 f) as bs ! k ! l = f (as ! k ! l) (bs ! k ! l)"
  using assms by simp

lemma wf_array2_row:
  assumes "wf_array2 a" "k < fst (shape a)"
  shows "k < length (cells a)" "length (cells a ! k) = snd (shape a)"
  using assms by (simp_all add: wf_array2_def)

section \<open>Facts about binary64\<close>

lemma pow2_powr: "pow2 e = 2 powr (of_int e)"
  by (simp add: pow2_def powr_real_of_int inverse_eq_divide)

lemma pow2_pos: "0 < pow2 e"
  by (simp add: pow2_powr)

lemma pow2_add: "pow2 (a + b) = pow2 a * pow2 b"
  by (simp add: pow2_powr powr_add)

lemma pow2_mono: "a \<le> b \<Longrightarrow> pow2 a \<le> pow2 b"
  by (simp add: pow2_powr)

lemma pow2_nonneg_int: "0 \<le> e \<Longrightarrow> pow2 e = of_int (2 ^ nat e)"
  by (simp add: pow2_def)

lemma log2_bounds:
  assumes "r \<noteq> 0"
  shows "pow2 \<lfloor>log 2 \<bar>r\<bar>\<rfloor> \<le> \<bar>r\<bar>" and "\<bar>r\<bar> < pow2 (\<lfloor>log 2 \<bar>r\<bar>\<rfloor> + 1)"
proof -
  have p: "0 < \<bar>r\<bar>" using assms by simp
  have "of_int \<lfloor>log 2 \<bar>r\<bar>\<rfloor> \<le> log 2 \<bar>r\<bar>" by simp
  then have "2 powr of_int \<lfloor>log 2 \<bar>r\<bar>\<rfloor> \<le> 2 powr log 2 \<bar>r\<bar>" by simp
  then show "pow2 \<lfloor>log 2 \<bar>r\<bar>\<rfloor> \<le> \<bar>r\<bar>" using p by (simp add: pow2_powr)
  have "log 2 \<bar>r\<bar> < of_int (\<lfloor>log 2 \<bar>r\<bar>\<rfloor> + 1)" by linarith
  then have "2 powr log 2 \<bar>r\<bar> < 2 powr of_int (\<lfloor>log 2 \<bar>r\<bar>\<rfloor> + 1)" by simp
  then show "\<bar>r\<bar> < pow2 (\<lfloor>log 2 \<bar>r\<bar>\<rfloor> + 1)" using p by (simp add: pow2_powr)
qed

lemma log2_unique:
  assumes "pow2 e \<le> \<bar>r\<bar>" "\<bar>r\<bar> < pow2 (e + 1)"
  shows "\<lfloor>log 2 \<bar>r\<bar>\<rfloor> = e"
proof -
  have p: "0 < \<bar>r\<bar>" using assms(1) pow2_pos [of e] by linarith
  have "2 powr of_int e \<le> 2 powr log 2 \<bar>r\<bar>" using assms(1) p by (simp add: pow2_powr)
  then have a: "of_int e \<le> log 2 \<bar>r\<bar>" by simp
  have "2 powr log 2 \<bar>r\<bar> < 2 powr of_int (e + 1)" using assms(2) p by (simp add: pow2_powr)
  then have b: "log 2 \<bar>r\<bar> < of_int (e + 1)" by simp
  from a b show ?thesis by (simp add: floor_eq_iff)
qed

lemma rne_int: "rne (of_int k) = k"
  by (simp add: rne_def)

lemma pow2_strict_mono: "a < b \<Longrightarrow> pow2 a < pow2 b"
  by (simp add: pow2_powr)

lemma pow2_le_iff: "pow2 a \<le> pow2 b \<longleftrightarrow> a \<le> b"
  by (simp add: pow2_powr)

lemma pow2_less_iff: "pow2 a < pow2 b \<longleftrightarrow> a < b"
  by (simp add: pow2_powr)

lemma pow2_0: "pow2 0 = 1"
  by (simp add: pow2_def)

lemma pow2_diff: "pow2 (a - b) = pow2 a / pow2 b"
  by (simp add: pow2_powr powr_diff)

lemma rne_bounds: "of_int (rne m) \<le> m + 1 / 2" "m - 1 / 2 \<le> of_int (rne m)"
  by (auto simp add: rne_def Let_def) linarith+

lemma rne_ge_int: "of_int k \<le> m \<Longrightarrow> k \<le> rne m"
proof -
  assume "of_int k \<le> m"
  then have "k \<le> \<lfloor>m\<rfloor>" by (simp add: le_floor_iff)
  then show ?thesis by (auto simp add: rne_def Let_def)
qed

lemma rne_le_int:
  assumes "m \<le> of_int k"
  shows "rne m \<le> k"
proof (cases "m = of_int k")
  case True
  then show ?thesis by (simp add: rne_int)
next
  case False
  with assms have "m < of_int k" by simp
  then have "\<lfloor>m\<rfloor> < k" by (simp add: floor_less_iff)
  then show ?thesis by (auto simp add: rne_def Let_def)
qed

lemma rne_mono:
  assumes "m \<le> m'"
  shows "rne m \<le> rne m'"
proof (cases "\<lfloor>m\<rfloor> = \<lfloor>m'\<rfloor>")
  case True
  have "m - of_int \<lfloor>m\<rfloor> \<le> m' - of_int \<lfloor>m\<rfloor>" using assms by simp
  then show ?thesis using True by (auto simp add: rne_def Let_def)
next
  case False
  have "\<lfloor>m\<rfloor> \<le> \<lfloor>m'\<rfloor>" using assms by (rule floor_mono)
  with False have "\<lfloor>m\<rfloor> + 1 \<le> \<lfloor>m'\<rfloor>" by simp
  moreover have "rne m \<le> \<lfloor>m\<rfloor> + 1" by (auto simp add: rne_def Let_def)
  moreover have "\<lfloor>m'\<rfloor> \<le> rne m'" by (auto simp add: rne_def Let_def)
  ultimately show ?thesis by linarith
qed

lemma rne_minus: "rne (- m) = - rne m"
proof (cases "m = of_int \<lfloor>m\<rfloor>")
  case True
  then obtain k where "m = of_int k" by metis
  then show ?thesis
    by (simp add: rne_int flip: of_int_minus)
next
  case False
  then have lo: "of_int \<lfloor>m\<rfloor> < m" using of_int_floor_le [of m] by linarith
  have hi: "m < of_int \<lfloor>m\<rfloor> + 1" by linarith
  have f: "\<lfloor>- m\<rfloor> = - \<lfloor>m\<rfloor> - 1"
    using lo hi by (intro floor_unique) (simp, linarith, simp)
  have d: "- m - of_int (- \<lfloor>m\<rfloor> - 1) = 1 - (m - of_int \<lfloor>m\<rfloor>)" by simp
  show ?thesis
    unfolding rne_def Let_def f d by auto
qed

lemma expo_minus: "expo (- r) = expo r"
  by (simp add: expo_def)

lemma rval_minus: "rval (- r) = - rval r"
  by (simp add: rval_def expo_minus rne_minus)

lemma expo_bounds:
  assumes "r \<noteq> 0"
  shows "\<bar>r\<bar> < pow2 (expo r + 1)" and "- 1022 < expo r \<Longrightarrow> pow2 (expo r) \<le> \<bar>r\<bar>"
    and "- 1022 \<le> expo r"
proof -
  note b = log2_bounds [OF assms]
  have "\<lfloor>log 2 \<bar>r\<bar>\<rfloor> + 1 \<le> expo r + 1" by (simp add: expo_def)
  then have "pow2 (\<lfloor>log 2 \<bar>r\<bar>\<rfloor> + 1) \<le> pow2 (expo r + 1)" by (rule pow2_mono)
  with b(2) show "\<bar>r\<bar> < pow2 (expo r + 1)" by linarith
  show "pow2 (expo r) \<le> \<bar>r\<bar>" if "- 1022 < expo r"
  proof -
    from that have "expo r = \<lfloor>log 2 \<bar>r\<bar>\<rfloor>" by (simp add: expo_def max_def split: if_splits)
    with b(1) show ?thesis by simp
  qed
  show "- 1022 \<le> expo r" by (simp add: expo_def)
qed

lemma expo_mono:
  assumes "0 < r" "r \<le> s"
  shows "expo r \<le> expo s"
proof -
  have "log 2 \<bar>r\<bar> \<le> log 2 \<bar>s\<bar>" using assms by simp
  then have "\<lfloor>log 2 \<bar>r\<bar>\<rfloor> \<le> \<lfloor>log 2 \<bar>s\<bar>\<rfloor>" by (rule floor_mono)
  then show ?thesis by (simp add: expo_def)
qed

lemma rval_nonneg:
  assumes "0 \<le> r"
  shows "0 \<le> rval r"
proof (cases "r = 0")
  case True
  then show ?thesis by (simp add: rval_def)
next
  case False
  have "0 \<le> r / pow2 (expo r - 52)" using assms pow2_pos [of "expo r - 52"] by simp
  then have "of_int 0 \<le> r / pow2 (expo r - 52)" by simp
  then have "0 \<le> rne (r / pow2 (expo r - 52))" by (rule rne_ge_int)
  then show ?thesis using False pow2_pos [of "expo r - 52"] by (simp add: rval_def)
qed

lemma rval_nonpos: "r \<le> 0 \<Longrightarrow> rval r \<le> 0"
  using rval_nonneg [of "- r"] by (simp add: rval_minus)

lemma pow2_split: "pow2 (E + 1) = pow2 53 * pow2 (E - 52)" "pow2 E = pow2 52 * pow2 (E - 52)"
  using pow2_add [of 53 "E - 52"] pow2_add [of 52 "E - 52"] by (simp_all add: add.commute)

lemma rval_upper:
  assumes "0 < r"
  shows "rval r \<le> pow2 (expo r + 1)"
proof -
  let ?q = "pow2 (expo r - 52)"
  have r: "r \<noteq> 0" using assms by simp
  have "r < pow2 (expo r + 1)" using expo_bounds(1) [OF r] assms by simp
  also have "pow2 (expo r + 1) = pow2 53 * ?q" by (rule pow2_split)
  finally have "r / ?q < pow2 53" using pow2_pos [of "expo r - 52"] by (simp add: pos_divide_less_eq)
  then have "r / ?q \<le> of_int (2 ^ 53)" by (simp add: pow2_def)
  then have "rne (r / ?q) \<le> 2 ^ 53" by (rule rne_le_int)
  then have "of_int (rne (r / ?q)) \<le> (of_int (2 ^ 53) :: real)" by (simp only: of_int_le_iff)
  then have "of_int (rne (r / ?q)) * ?q \<le> pow2 53 * ?q"
    using pow2_pos [of "expo r - 52"] by (simp add: pow2_def)
  also have "pow2 53 * ?q = pow2 (expo r + 1)" by (rule pow2_split [symmetric])
  finally show ?thesis using r by (simp add: rval_def)
qed

lemma rval_lower:
  assumes "0 < s" "- 1022 < expo s"
  shows "pow2 (expo s) \<le> rval s"
proof -
  let ?q = "pow2 (expo s - 52)"
  have s: "s \<noteq> 0" using assms by simp
  have "pow2 (expo s) \<le> s" using expo_bounds(2) [OF s assms(2)] assms(1) by simp
  moreover have "pow2 (expo s) = pow2 52 * ?q" by (rule pow2_split)
  ultimately have "pow2 52 \<le> s / ?q" using pow2_pos [of "expo s - 52"] by (simp add: pos_le_divide_eq)
  then have "of_int (2 ^ 52) \<le> s / ?q" by (simp add: pow2_def)
  then have "2 ^ 52 \<le> rne (s / ?q)" by (rule rne_ge_int)
  then have "(of_int (2 ^ 52) :: real) \<le> of_int (rne (s / ?q))" by (simp only: of_int_le_iff)
  then have "pow2 52 * ?q \<le> of_int (rne (s / ?q)) * ?q"
    using pow2_pos [of "expo s - 52"] by (simp add: pow2_def)
  moreover have "pow2 52 * ?q = pow2 (expo s)" by (rule pow2_split [symmetric])
  ultimately show ?thesis using s by (simp add: rval_def)
qed

lemma rval_mono_pos:
  assumes "0 < r" "r \<le> s"
  shows "rval r \<le> rval s"
proof (cases "expo r = expo s")
  case True
  let ?q = "pow2 (expo s - 52)"
  have "r / ?q \<le> s / ?q" using assms(2) pow2_pos [of "expo s - 52"] by (simp add: divide_right_mono)
  then have "rne (r / ?q) \<le> rne (s / ?q)" by (rule rne_mono)
  then have "of_int (rne (r / ?q)) * ?q \<le> of_int (rne (s / ?q)) * ?q"
    using pow2_pos [of "expo s - 52"] by simp
  then show ?thesis using assms True by (simp add: rval_def)
next
  case False
  with expo_mono [OF assms] have lt: "expo r + 1 \<le> expo s" by simp
  have "- 1022 \<le> expo r" by (simp add: expo_def)
  with lt have "- 1022 < expo s" by simp
  from rval_lower [OF _ this] assms have "pow2 (expo s) \<le> rval s" by simp
  moreover have "rval r \<le> pow2 (expo r + 1)" by (rule rval_upper [OF assms(1)])
  moreover have "pow2 (expo r + 1) \<le> pow2 (expo s)" using lt by (rule pow2_mono)
  ultimately show ?thesis by linarith
qed

lemma rval_mono:
  assumes "r \<le> s"
  shows "rval r \<le> rval s"
proof -
  consider "0 < r" | "r \<le> 0" "0 \<le> s" | "s < 0" by linarith
  then show ?thesis
  proof cases
    case 1
    then show ?thesis using assms by (rule rval_mono_pos)
  next
    case 2
    then show ?thesis using rval_nonpos [of r] rval_nonneg [of s] by linarith
  next
    case 3
    then have "0 < - s" "- s \<le> - r" using assms by simp_all
    from rval_mono_pos [OF this] show ?thesis by (simp add: rval_minus)
  qed
qed

lemma rval_exact:
  assumes "r = of_int n * pow2 e" "\<bar>n\<bar> < 2 ^ 53" "- 1074 \<le> e"
  shows "rval r = r"
proof (cases "r = 0")
  case True
  then show ?thesis by (simp add: rval_def)
next
  case False
  have le: "expo r - 52 \<le> e"
  proof (cases "- 1022 < expo r")
    case True
    have "pow2 (expo r) \<le> \<bar>r\<bar>" by (rule expo_bounds(2) [OF False True])
    also have "\<bar>r\<bar> = \<bar>of_int n\<bar> * pow2 e" using pow2_pos [of e] by (simp add: assms(1) abs_mult)
    also have "\<dots> < pow2 53 * pow2 e"
    proof -
      have "\<bar>of_int n :: real\<bar> < of_int (2 ^ 53)" using assms(2) by (simp flip: of_int_abs)
      then show ?thesis using pow2_pos [of e] by (simp add: pow2_def)
    qed
    also have "\<dots> = pow2 (53 + e)" by (simp add: pow2_add)
    finally have "expo r < 53 + e" by (simp add: pow2_less_iff)
    then show ?thesis by simp
  next
    case False
    with assms(3) show ?thesis by simp
  qed
  define d where "d = e - (expo r - 52)"
  have d: "0 \<le> d" using le by (simp add: d_def)
  have "r / pow2 (expo r - 52) = of_int n * pow2 d"
    by (simp add: assms(1) d_def pow2_diff)
  also have "\<dots> = of_int (n * 2 ^ nat d)" using d by (simp add: pow2_def)
  finally have m: "r / pow2 (expo r - 52) = of_int (n * 2 ^ nat d)" .
  have "rval r = of_int (n * 2 ^ nat d) * pow2 (expo r - 52)"
    using False by (simp only: rval_def m rne_int if_False)
  also have "\<dots> = r" using m pow2_pos [of "expo r - 52"] by (simp add: field_simps)
  finally show ?thesis .
qed

lemma rval_eq:
  assumes "pow2 e \<le> \<bar>r\<bar>" "\<bar>r\<bar> < pow2 (e + 1)" "- 1022 \<le> e"
  shows "rval r = of_int (rne (r / pow2 (e - 52))) * pow2 (e - 52)"
proof -
  have "r \<noteq> 0" using assms(1) pow2_pos [of e] by auto
  moreover have "expo r = e" using log2_unique [OF assms(1,2)] assms(3) by (simp add: expo_def)
  ultimately show ?thesis by (simp add: rval_def)
qed

lemma rnd_exact:
  assumes "r = of_int n * pow2 e" "\<bar>n\<bar> < 2 ^ 53" "- 1074 \<le> e" "e \<le> 970"
  shows "rnd r = Fin r"
proof -
  have v: "rval r = r" by (rule rval_exact [OF assms(1,2,3)])
  have "\<bar>of_int n :: real\<bar> < of_int (2 ^ 53)" using assms(2) by (simp flip: of_int_abs)
  then have "\<bar>of_int n :: real\<bar> < pow2 53" by (simp add: pow2_def)
  then have "\<bar>r\<bar> < pow2 53 * pow2 e"
    using pow2_pos [of e] by (simp add: assms(1) abs_mult)
  also have "\<dots> = pow2 (53 + e)" by (simp add: pow2_add)
  also have "\<dots> \<le> pow2 1023" using assms(4) by (intro pow2_mono) simp
  also have "\<dots> < pow2 1024" by (simp add: pow2_less_iff)
  finally show ?thesis by (simp add: rnd_def v)
qed

lemma rnd_int: "\<bar>n\<bar> < 2 ^ 53 \<Longrightarrow> rnd (of_int n) = Fin (of_int n)"
  using rnd_exact [of "of_int n" n 0] by (simp add: pow2_0)

lemma rnd_0: "rnd 0 = Fin 0"
  using rnd_int [of 0] by simp

lemma rnd_1: "rnd 1 = Fin 1"
  using rnd_int [of 1] by simp

lemma rnd_numeral: "numeral k < (2 :: int) ^ 53 \<Longrightarrow> rnd (numeral k) = Fin (numeral k)"
  using rnd_int [of "numeral k"] by simp

lemma rnd_neg_numeral:
  "numeral k < (2 :: int) ^ 53 \<Longrightarrow> rnd (- numeral k) = Fin (- numeral k)"
  using rnd_int [of "- numeral k"] by simp

lemma rnd_halves: "\<bar>n\<bar> < 2 ^ 53 \<Longrightarrow> rnd (of_int n / 2) = Fin (of_int n / 2)"
  using rnd_exact [of "of_int n / 2" n "- 1"] by (simp add: pow2_def)

lemma rnd_quarters: "\<bar>n\<bar> < 2 ^ 53 \<Longrightarrow> rnd (of_int n / 4) = Fin (of_int n / 4)"
  using rnd_exact [of "of_int n / 4" n "- 2"] by (simp add: pow2_def)

lemma rnd_never_NaN: "rnd r \<noteq> NaN"
  by (simp add: rnd_def)

lemma rnd_nonneg_cases:
  assumes "0 \<le> r"
  obtains v where "rnd r = Fin v" "0 \<le> v" | "rnd r = PInf" "0 < r"
proof (cases "pow2 1024 \<le> \<bar>rval r\<bar>")
  case True
  have "r \<noteq> 0" using True pow2_pos [of 1024] by (auto simp add: rval_def)
  with assms True that(2) show ?thesis by (simp add: rnd_def)
next
  case False
  with that(1) rval_nonneg [OF assms] show ?thesis by (simp add: rnd_def)
qed

lemma rnd_mono: "r \<le> s \<Longrightarrow> dle (rnd r) (rnd s)"
proof -
  assume rs: "r \<le> s"
  note m = rval_mono [OF rs]
  show ?thesis
  proof (cases "pow2 1024 \<le> \<bar>rval r\<bar>")
    case r_big: True
    show ?thesis
    proof (cases "0 < r")
      case True
      then have "0 \<le> rval r" by (simp add: rval_nonneg)
      with r_big m have "pow2 1024 \<le> \<bar>rval s\<bar>" by simp
      with True rs show ?thesis by (simp add: rnd_def r_big)
    next
      case False
      then show ?thesis by (simp add: rnd_def r_big rnd_never_NaN [unfolded rnd_def])
    qed
  next
    case r_small: False
    show ?thesis
    proof (cases "pow2 1024 \<le> \<bar>rval s\<bar>")
      case s_big: True
      show ?thesis
      proof (cases "0 < s")
        case True
        then show ?thesis by (simp add: rnd_def r_small s_big)
      next
        case False
        then have "rval s \<le> 0" by (simp add: rval_nonpos)
        with s_big m have "pow2 1024 \<le> \<bar>rval r\<bar>" by simp
        with r_small show ?thesis by simp
      qed
    next
      case False
      with r_small m show ?thesis by (simp add: rnd_def)
    qed
  qed
qed

lemma dlt_iff: "dlt a b \<longleftrightarrow> dle a b \<and> \<not> dle b a"
  by (cases a; cases b) auto

lemma dle_trans: "dle a b \<Longrightarrow> dle b c \<Longrightarrow> dle a c"
  by (cases a; cases b; cases c) auto

lemma dle_total: "dle a a \<Longrightarrow> dle b b \<Longrightarrow> dle a b \<or> dle b a"
  by (cases a; cases b) auto

lemma dle_self: "dle a b \<Longrightarrow> dle a a \<and> dle b b"
  by (cases a; cases b) auto

lemma float_order_binary64: "float_order binary64"
  unfolding float_order_def binary64_def
  by (simp add: dlt_iff) (meson dle_trans dle_total dle_self)

lemma py_int_mono: "r \<le> s \<Longrightarrow> py_int r \<le> py_int s"
proof -
  assume rs: "r \<le> s"
  consider "0 \<le> r" | "r < 0" "0 \<le> s" | "s < 0" by linarith
  then show ?thesis
  proof cases
    case 1
    then show ?thesis using rs by (simp add: py_int_def floor_mono)
  next
    case 2
    from 2(1) have a: "\<lceil>r\<rceil> \<le> 0" by (simp add: ceiling_le_iff)
    from 2(2) have b: "0 \<le> \<lfloor>s\<rfloor>" by simp
    have "py_int r = \<lceil>r\<rceil>" "py_int s = \<lfloor>s\<rfloor>" using 2 by (simp_all add: py_int_def)
    with a b show ?thesis by linarith
  next
    case 3
    then show ?thesis using rs by (simp add: py_int_def ceiling_mono)
  qed
qed

lemma py_int_nonneg: "0 \<le> r \<Longrightarrow> 0 \<le> py_int r"
  by (simp add: py_int_def)

text \<open>The difference \<open>V - a\<close> for \<open>a \<le> V\<close>, and the quotient of two such differences.\<close>

lemma dsub_ordered_cases:
  assumes "dle a V"
  obtains v where "dsub V a = Fin v" "0 \<le> v" | "dsub V a = PInf" | "dsub V a = NaN"
proof (cases a)
  case (Fin ra)
  show ?thesis
  proof (cases V)
    case (Fin rv)
    with \<open>a = Fin ra\<close> assms have n: "0 \<le> rv + - ra" by simp
    have d: "dsub V a = rnd (rv + - ra)" by (simp add: dsub_def Fin \<open>a = Fin ra\<close>)
    from n show ?thesis
    proof (cases rule: rnd_nonneg_cases)
      case (1 v)
      with d that(1) show ?thesis by simp
    next
      case 2
      with d that(2) show ?thesis by simp
    qed
  qed (use assms Fin that in \<open>auto simp add: dsub_def\<close>)
next
  case PInf
  with assms that show ?thesis by (cases V) (auto simp add: dsub_def)
next
  case NInf
  with assms that show ?thesis by (cases V) (auto simp add: dsub_def)
next
  case NaN
  with assms show ?thesis by simp
qed

lemma dsub_positive_cases:
  assumes "dlt a b"
  obtains v where "dsub b a = Fin v" "0 \<le> v" | "dsub b a = PInf" | "dsub b a = NaN"
  using assms dsub_ordered_cases [of a b] by (auto simp add: dlt_iff)

lemma dsub_mono:
  assumes "dle V W" "dsub V a = Fin p" "dsub W a = Fin p'"
  shows "p \<le> p'"
proof -
  from assms(2) obtain ra rv where a: "a = Fin ra" and V: "V = Fin rv"
    by (cases a; cases V) (auto simp add: dsub_def rnd_never_NaN)
  from assms(3) a obtain rw where W: "W = Fin rw"
    by (cases W) (auto simp add: dsub_def)
  from assms(1) V W have "rv + - ra \<le> rw + - ra" by simp
  from rnd_mono [OF this] assms(2,3) show ?thesis by (simp add: dsub_def a V W)
qed

lemma index_nonneg_binary64: "index_nonneg binary64"
  unfolding index_nonneg_def
proof (intro allI impI)
  fix a b V k
  assume h: "fle binary64 a V \<and> flt binary64 a b
      \<and> fint binary64 (fdiv binary64 (fsub binary64 V a) (fsub binary64 b a)) = Converted k"
  then have aV: "dle a V" and ab: "dlt a b"
    and c: "dint (ddiv (dsub V a) (dsub b a)) = Converted k"
    by (simp_all add: binary64_def)
  from aV show "0 \<le> k"
  proof (cases rule: dsub_ordered_cases)
    case (1 v)
    from ab show ?thesis
    proof (cases rule: dsub_positive_cases)
      case (1 w)
      show ?thesis
      proof (cases "w = 0")
        case True
        with c \<open>dsub V a = Fin v\<close> \<open>dsub b a = Fin w\<close> show ?thesis
          by (simp add: inf_of_def split: if_splits)
      next
        case False
        with \<open>0 \<le> w\<close> \<open>0 \<le> v\<close> have "0 \<le> v / w" by simp
        then show ?thesis
          using c \<open>dsub V a = Fin v\<close> \<open>dsub b a = Fin w\<close> False
          by (auto elim!: rnd_nonneg_cases [of "v / w"] simp add: py_int_nonneg)
      qed
    next
      case 2
      with c \<open>dsub V a = Fin v\<close> show ?thesis by (simp add: py_int_def)
    next
      case 3
      with c \<open>dsub V a = Fin v\<close> show ?thesis by simp
    qed
  next
    case 2
    from ab show ?thesis
      by (cases rule: dsub_positive_cases) (use c 2 in \<open>auto simp add: inf_of_def\<close>)
  next
    case 3
    with c show ?thesis by simp
  qed
qed

lemma index_mono_binary64: "index_mono binary64"
  unfolding index_mono_def
proof (intro allI impI)
  fix a b V W k l
  assume h: "fle binary64 a V \<and> fle binary64 V W \<and> flt binary64 a b
      \<and> fint binary64 (fdiv binary64 (fsub binary64 V a) (fsub binary64 b a)) = Converted k
      \<and> fint binary64 (fdiv binary64 (fsub binary64 W a) (fsub binary64 b a)) = Converted l"
  then have aV: "dle a V" and VW: "dle V W" and ab: "dlt a b"
    and ck: "dint (ddiv (dsub V a) (dsub b a)) = Converted k"
    and cl: "dint (ddiv (dsub W a) (dsub b a)) = Converted l"
    by (simp_all add: binary64_def)
  from ab show "k \<le> l"
  proof (cases rule: dsub_positive_cases)
    case (1 w)
    show ?thesis
    proof (cases "w = 0")
      case True
      with ck 1 show ?thesis
        by (cases "dsub V a") (auto simp add: inf_of_def split: if_splits)
    next
      case False
      with 1 have w: "0 < w" by simp
      from ck 1 obtain p where p: "dsub V a = Fin p"
        by (cases "dsub V a") (auto simp add: inf_of_def split: if_splits)
      from cl 1 obtain p' where p': "dsub W a = Fin p'"
        by (cases "dsub W a") (auto simp add: inf_of_def split: if_splits)
      have "p \<le> p'" by (rule dsub_mono [OF VW p p'])
      then have "p / w \<le> p' / w" using w by (simp add: divide_right_mono)
      from rnd_mono [OF this] ck cl p p' 1 False show ?thesis
        by (cases "rnd (p / w)"; cases "rnd (p' / w)") (auto simp add: py_int_mono)
    qed
  next
    case 2
    with ck cl show ?thesis
      by (cases "dsub V a"; cases "dsub W a") (auto simp add: py_int_def)
  next
    case 3
    with ck show ?thesis by (cases "dsub V a") auto
  qed
qed

lemma rnd_half_numeral:
  "numeral k < (2 :: int) ^ 53 \<Longrightarrow> rnd (numeral k / 2) = Fin (numeral k / 2)"
  using rnd_halves [of "numeral k"] by simp

lemma rnd_half: "rnd (1 / 2) = Fin (1 / 2)"
  using rnd_halves [of 1] by simp

lemma rnd_quarter_numeral:
  "numeral k < (2 :: int) ^ 53 \<Longrightarrow> rnd (numeral k / 4) = Fin (numeral k / 4)"
  using rnd_quarters [of "numeral k"] by simp

lemma rnd_quarter: "rnd (1 / 4) = Fin (1 / 4)"
  using rnd_quarters [of 1] by simp

lemma rnd_neg_half_numeral:
  "numeral k < (2 :: int) ^ 53 \<Longrightarrow> rnd (- (numeral k / 2)) = Fin (- (numeral k / 2))"
  using rnd_halves [of "- numeral k"] by simp

lemma rnd_neg_1: "rnd (- 1) = Fin (- 1)"
  using rnd_int [of "- 1"] by simp

lemma rnd_3_16: "rnd (3 / 16) = Fin (3 / 16)"
  using rnd_exact [of "3 / 16" 3 "- 4"] by (simp add: pow2_def)

text \<open>\<open>10\<^sup>1\<^sup>6\<close> is a double; its odd neighbours are ties, and a tie goes to the even significand.\<close>

lemma rnd_1e16: "rnd 10000000000000000 = Fin 10000000000000000"
  using rnd_exact [of 10000000000000000 152587890625 16] by (simp add: pow2_def)

lemma rnd_neg_1e16: "rnd (- 10000000000000000) = Fin (- 10000000000000000)"
  using rnd_exact [of "- 10000000000000000" "- 152587890625" 16] by (simp add: pow2_def)

lemma rne_tie_up: "rne (9999999999999999 / 2) = 5000000000000000"
  by (simp add: rne_def Let_def)

lemma rne_tie_down: "rne (- (9999999999999999 / 2)) = - 5000000000000000"
  by (simp add: rne_def Let_def)

lemma rval_below_1e16: "rval 9999999999999999 = 10000000000000000"
  using rval_eq [of 53 9999999999999999] by (simp add: pow2_def rne_tie_up)

lemma rval_above_neg_1e16: "rval (- 9999999999999999) = - 10000000000000000"
  using rval_eq [of 53 "- 9999999999999999"] by (simp add: pow2_def rne_tie_down)

lemma pow2_1024_large: "(10000000000000000 :: real) < pow2 1024"
proof -
  have "(10000000000000000 :: real) < pow2 54" by (simp add: pow2_def)
  also have "\<dots> < pow2 1024" by (simp add: pow2_less_iff)
  finally show ?thesis .
qed

lemma rnd_below_1e16: "rnd 9999999999999999 = Fin 10000000000000000"
  using pow2_1024_large by (simp add: rnd_def rval_below_1e16)

lemma rnd_above_neg_1e16: "rnd (- 9999999999999999) = Fin (- 10000000000000000)"
  using pow2_1024_large by (simp add: rnd_def rval_above_neg_1e16)

text \<open>The smallest positive double, and its reciprocal, which is not a double.\<close>

lemma rnd_tiny: "rnd (pow2 (- 1074)) = Fin (pow2 (- 1074))"
  using rnd_exact [of "pow2 (- 1074)" 1 "- 1074"] by simp

lemma tiny_bounds: "0 < pow2 (- 1074)" "pow2 (- 1074) < 1" "pow2 (- 1074) \<noteq> 0"
proof -
  show "0 < pow2 (- 1074)" by (rule pow2_pos)
  then show "pow2 (- 1074) \<noteq> 0" by simp
  have "pow2 (- 1074) < pow2 0" by (simp add: pow2_less_iff)
  then show "pow2 (- 1074) < 1" by (simp add: pow2_0)
qed

lemma rnd_huge: "rnd (1 / pow2 (- 1074)) = PInf"
proof -
  have e: "1 / pow2 (- 1074) = pow2 1074" by (simp add: pow2_def)
  have "rval (pow2 1074) = pow2 1074"
    using rval_exact [of "pow2 1074" 1 1074] by simp
  moreover have "pow2 1024 \<le> pow2 1074" by (simp add: pow2_le_iff)
  ultimately show ?thesis using pow2_pos [of 1074] by (simp add: e rnd_def)
qed

text \<open>Just below 1 the doubles are \<open>2\<^sup>-\<^sup>5\<^sup>3\<close> apart: \<open>1 - 2\<^sup>-\<^sup>6\<^sup>0\<close> rounds to 1.\<close>

lemma rnd_absorbed: "rnd (1 - pow2 (- 60)) = Fin 1"
proof -
  define r :: real where "r = 1 - pow2 (- 60)"
  have v: "pow2 (- 60) = 1 / 2 ^ 60" "pow2 (- 1) = 1 / 2" "pow2 (- 53) = 1 / 2 ^ 53"
    by (simp_all add: pow2_def)
  have b1: "pow2 (- 1) \<le> \<bar>r\<bar>" by (simp add: r_def v)
  have b2: "\<bar>r\<bar> < pow2 (- 1 + 1)" by (simp add: r_def v pow2_0)
  have b3: "- 1022 \<le> (- 1 :: int)" by simp
  have m: "(- 1 :: int) - 52 = - 53" by simp
  have q: "r / pow2 (- 53) = 2 ^ 53 - 1 / 128"
    by (simp add: r_def v field_simps)
  have "\<lfloor>(2 :: real) ^ 53 - 1 / 128\<rfloor> = 2 ^ 53 - 1"
    by (intro floor_unique) simp_all
  then have n: "rne (2 ^ 53 - 1 / 128) = 2 ^ 53"
    by (simp add: rne_def Let_def)
  have "rval r = of_int (rne (r / pow2 (- 53))) * pow2 (- 53)"
    using rval_eq [OF b1 b2 b3] unfolding m .
  also have "\<dots> = of_int (2 ^ 53) * pow2 (- 53)" unfolding q n ..
  also have "\<dots> = 1" by (simp add: v)
  finally have "rval r = 1" .
  moreover have "(1 :: real) < pow2 1024"
    using pow2_1024_large by simp
  ultimately have "rnd r = Fin 1" by (simp add: rnd_def)
  then show ?thesis by (simp only: r_def)
qed

text \<open>Evaluating the operations of \<open>binary64\<close> on small dyadic numbers.\<close>

lemmas binary64_ops =
  binary64_def dsub_def rnd_0 rnd_1 rnd_neg_1 rnd_numeral rnd_neg_numeral rnd_half rnd_half_numeral
  rnd_quarter rnd_quarter_numeral rnd_neg_half_numeral rnd_3_16 py_int_def inf_of_def

lemmas source_defs =
  evaluate_def is_masked_def bilinear_interp_def index_of_point_def contains_def cell_of_def
  getitem_def getitem2_def grid_getitem_def is_missing_def ebind_def lift2_def

text \<open>Just below 2 the doubles are \<open>2\<^sup>-\<^sup>5\<^sup>2\<close> apart: \<open>2 - 2\<^sup>-\<^sup>5\<^sup>3\<close> is a tie, and rounds to 2.\<close>

lemma rnd_tie_2: "rnd (2 - pow2 (- 53)) = Fin 2"
proof -
  define r :: real where "r = 2 - pow2 (- 53)"
  have v: "pow2 (- 53) = 1 / 2 ^ 53" "pow2 (- 52) = 1 / 2 ^ 52" "pow2 0 = 1" "pow2 1 = 2"
    by (simp_all add: pow2_def)
  have b1: "pow2 0 \<le> \<bar>r\<bar>" by (simp add: r_def v)
  have b2: "\<bar>r\<bar> < pow2 (0 + 1)" by (simp add: r_def v)
  have b3: "- 1022 \<le> (0 :: int)" by simp
  have m: "(0 :: int) - 52 = - 52" by simp
  have q: "r / pow2 (- 52) = 2 ^ 53 - 1 / 2"
    by (simp add: r_def v field_simps)
  have f: "\<lfloor>(2 :: real) ^ 53 - 1 / 2\<rfloor> = 2 ^ 53 - 1"
    by (intro floor_unique) simp_all
  have n: "rne (2 ^ 53 - 1 / 2) = 2 ^ 53"
    unfolding rne_def Let_def f by simp
  have "rval r = of_int (rne (r / pow2 (- 52))) * pow2 (- 52)"
    using rval_eq [OF b1 b2 b3] unfolding m .
  also have "\<dots> = of_int (2 ^ 53) * pow2 (- 52)" unfolding q n ..
  also have "\<dots> = 2" by (simp add: v)
  finally have "rval r = 2" .
  moreover have "(2 :: real) < pow2 1024"
    using pow2_1024_large by simp
  ultimately have "rnd r = Fin 2" by (simp add: rnd_def)
  then show ?thesis by (simp only: r_def)
qed

lemma below_1_bounds: "0 < pow2 (- 53)" "pow2 (- 53) < 1"
proof -
  show "0 < pow2 (- 53)" by (rule pow2_pos)
  have "pow2 (- 53) < pow2 0" by (simp add: pow2_less_iff)
  then show "pow2 (- 53) < 1" by (simp add: pow2_0)
qed

lemma rnd_below_1: "rnd (1 - pow2 (- 53)) = Fin (1 - pow2 (- 53))"
proof -
  have "1 - pow2 (- 53) = of_int (2 ^ 53 - 1) * pow2 (- 53)"
    by (simp add: pow2_def field_simps)
  from rnd_exact [OF this] show ?thesis by simp
qed

text \<open>The difference of \<open>-2\<^sup>1\<^sup>0\<^sup>2\<^sup>3\<close> and \<open>2\<^sup>1\<^sup>0\<^sup>2\<^sup>3\<close> overflows.\<close>

lemma rnd_2_1023: "rnd (pow2 1023) = Fin (pow2 1023)" "rnd (- pow2 1023) = Fin (- pow2 1023)"
proof -
  have v: "rval (pow2 1023) = pow2 1023" "rval (- pow2 1023) = - pow2 1023"
    using rval_exact [of "pow2 1023" 1 1023] rval_exact [of "- pow2 1023" "- 1" 1023] by simp_all
  have l: "pow2 1023 < pow2 1024" by (simp add: pow2_less_iff)
  show "rnd (pow2 1023) = Fin (pow2 1023)" "rnd (- pow2 1023) = Fin (- pow2 1023)"
    using l pow2_pos [of 1023] by (simp_all add: rnd_def v)
qed

lemma rnd_overflow: "rnd (- (2 * pow2 1023)) = NInf" "rnd (2 * pow2 1023) = PInf"
proof -
  have e: "2 * pow2 1023 = pow2 1024"
    using pow2_add [of 1 1023] by (simp add: pow2_def)
  have v: "rval (- pow2 1024) = - pow2 1024" "rval (pow2 1024) = pow2 1024"
    using rval_exact [of "- pow2 1024" "- 1" 1024] rval_exact [of "pow2 1024" 1 1024] by simp_all
  show "rnd (- (2 * pow2 1023)) = NInf" "rnd (2 * pow2 1023) = PInf"
    unfolding e using pow2_pos [of 1024] by (simp_all add: rnd_def v)
qed

section \<open>Facts used by several claims\<close>

lemma binary64_sel:
  "fle binary64 = dle" "flt binary64 = dlt" "feq binary64 = deq" "fadd binary64 = dadd"
  "fsub binary64 = dsub" "fmul binary64 = dmul" "fdiv binary64 = ddiv" "fint binary64 = dint"
  by (simp_all add: binary64_def)

lemma float_orderD:
  assumes "float_order A"
  shows "flt A a b \<longleftrightarrow> fle A a b \<and> \<not> fle A b a"
    and "fle A a b \<Longrightarrow> fle A b c \<Longrightarrow> fle A a c"
    and "fle A a a \<Longrightarrow> fle A b b \<Longrightarrow> fle A a b \<or> fle A b a"
    and "fle A a b \<Longrightarrow> fle A a a" and "fle A a b \<Longrightarrow> fle A b b"
proof -
  from assms have 1: "\<forall>a b. flt A a b \<longleftrightarrow> fle A a b \<and> \<not> fle A b a"
    and 2: "\<forall>a b c. fle A a b \<and> fle A b c \<longrightarrow> fle A a c"
    and 3: "\<forall>a b. fle A a a \<and> fle A b b \<longrightarrow> fle A a b \<or> fle A b a"
    and 4: "\<forall>a b. fle A a b \<longrightarrow> fle A a a \<and> fle A b b"
    unfolding float_order_def by blast+
  from 1 show "flt A a b \<longleftrightarrow> fle A a b \<and> \<not> fle A b a" by (rule allE) (erule allE)
  from 2 [rule_format, of a b c] show "fle A a b \<Longrightarrow> fle A b c \<Longrightarrow> fle A a c" by simp
  from 3 [rule_format, of a b] show "fle A a a \<Longrightarrow> fle A b b \<Longrightarrow> fle A a b \<or> fle A b a" by simp
  from 4 [rule_format, of a b] show "fle A a b \<Longrightarrow> fle A a a" by simp
  from 4 [rule_format, of a b] show "fle A a b \<Longrightarrow> fle A b b" by simp
qed

text \<open>The clamped corners of a rectangle that reaches the domain are in the domain.\<close>

lemma clamp_in_domain:
  assumes fo: "float_order A" and ax: "fle A a0 al" and lo: "fle A vmin al" and hi: "fle A a0 vmax"
  shows "fle A a0 (pymax A vmin a0)" "fle A (pymax A vmin a0) al"
    "fle A a0 (pymin A vmax al)" "fle A (pymin A vmax al) al"
proof -
  note o = float_orderD [OF fo]
  have s: "fle A a0 a0" "fle A al al" "fle A vmin vmin" "fle A vmax vmax"
    using o(4) [OF ax] o(5) [OF ax] o(4) [OF lo] o(5) [OF hi] by simp_all
  show "fle A a0 (pymax A vmin a0)"
  proof (cases "flt A vmin a0")
    case True
    then show ?thesis by (simp add: pymax_def s)
  next
    case False
    with o(3) [OF s(1) s(3)] o(1) [of vmin a0] show ?thesis by (auto simp add: pymax_def)
  qed
  show "fle A (pymax A vmin a0) al" using ax lo by (simp add: pymax_def)
  show "fle A a0 (pymin A vmax al)" using ax hi by (simp add: pymin_def)
  show "fle A (pymin A vmax al) al"
  proof (cases "flt A al vmax")
    case True
    then show ?thesis by (simp add: pymin_def s)
  next
    case False
    with o(3) [OF s(2) s(4)] o(1) [of al vmax] show ?thesis by (auto simp add: pymin_def)
  qed
qed

text \<open>A lower bound beyond the last coordinate is not clamped.\<close>

lemma clamp_beyond:
  assumes fo: "float_order A" and ax: "fle A a0 al" and lo: "\<not> fle A vmin al"
  shows "\<not> fle A (pymax A vmin a0) al"
proof -
  note o = float_orderD [OF fo]
  have "\<not> flt A vmin a0"
  proof
    assume "flt A vmin a0"
    then have "fle A vmin a0" by (simp add: o(1))
    from o(2) [OF this ax] lo show False by simp
  qed
  with lo show ?thesis by (simp add: pymax_def)
qed

lemma clamp_before:
  assumes fo: "float_order A" and ax: "fle A a0 al" and hi: "\<not> fle A a0 vmax"
  shows "\<not> fle A a0 (pymin A vmax al)"
proof -
  note o = float_orderD [OF fo]
  have "\<not> flt A al vmax"
  proof
    assume "flt A al vmax"
    then have "fle A al vmax" by (simp add: o(1))
    from o(2) [OF ax this] hi show False by simp
  qed
  with hi show ?thesis by (simp add: pymin_def)
qed

text \<open>The errors of the index computation on axes of two coordinates or more.\<close>

lemma index_of_point_error_kinds:
  assumes "2 \<le> length xs" "2 \<le> length ys" "index_of_point A xs ys X Y = Inl e"
  shows "e = OutOfDomain \<or> e = OverflowError \<or> e = NanConversion"
proof (cases "fle A (xs ! 0) X \<and> fle A X (last xs) \<and> fle A (ys ! 0) Y \<and> fle A Y (last ys)")
  case True
  with index_of_point_inside_cases [OF assms(1,2), of A X Y] assms(3) show ?thesis by auto
next
  case False
  from assms(1,2) have "xs \<noteq> []" "ys \<noteq> []" by auto
  from index_of_point_outside [OF this False] assms(3) show ?thesis by simp
qed

lemma subset_error_kinds:
  assumes "2 \<le> length (x g)" "2 \<le> length (y g)"
    "shape (data g) = (length (y g), length (x g))"
    and "subset A g xmin ymin xmax ymax = Inl e"
  shows "e = OutOfDomain \<or> e = OverflowError \<or> e = NanConversion"
proof -
  from assms(1,2) have ne: "x g \<noteq> []" "y g \<noteq> []" by auto
  from assms(4) show ?thesis
    unfolding subset_unfold [OF ne assms(3)]
    by (auto elim!: ebind_Inl_cases dest: index_of_point_error_kinds [OF assms(1,2)])
qed

lemma subset_Inr_cases:
  assumes "x g \<noteq> []" "y g \<noteq> []" "shape (data g) = (length (y g), length (x g))"
    and "subset A g xmin ymin xmax ymax = Inr g'"
  obtains imin jmin imax jmax where
    "index_of_point A (x g) (y g) (pymax A xmin (x g ! 0)) (pymax A ymin (y g ! 0))
       = Inr (imin, jmin)"
    "index_of_point A (x g) (y g) (pymin A xmax (last (x g))) (pymin A ymax (last (y g)))
       = Inr (imax, jmax)"
    "g' = \<lparr>x = slice (x g) jmin (jmax + 2), y = slice (y g) imin (imax + 2),
           data = slice2 (data g) imin (imax + 2) jmin (jmax + 2)\<rparr>"
  using assms(4) unfolding subset_unfold [OF assms(1,2,3)]
  by (auto elim!: ebind_Inr_cases)

text \<open>The cells of two ordered points are ordered.\<close>

lemma index_of_point_mono:
  assumes "index_mono A" "flt A (xs ! 0) (xs ! 1)" "flt A (ys ! 0) (ys ! 1)"
    and "index_of_point A xs ys X Y = Inr (i, j)" "index_of_point A xs ys X' Y' = Inr (i', j')"
    and "fle A X X'" "fle A Y Y'"
  shows "i \<le> i'" "j \<le> j'"
proof -
  note r = index_of_point_Inr [OF assms(4)] and r' = index_of_point_Inr [OF assms(5)]
  from r(7) obtain k where k: "fint A (fdiv A (fsub A Y (ys ! 0)) (fsub A (ys ! 1) (ys ! 0)))
      = Converted k" "i = min k (int (length ys) - 2)" by blast
  from r'(7) obtain k' where k': "fint A (fdiv A (fsub A Y' (ys ! 0)) (fsub A (ys ! 1) (ys ! 0)))
      = Converted k'" "i' = min k' (int (length ys) - 2)" by blast
  from r(8) obtain l where l: "fint A (fdiv A (fsub A X (xs ! 0)) (fsub A (xs ! 1) (xs ! 0)))
      = Converted l" "j = min l (int (length xs) - 2)" by blast
  from r'(8) obtain l' where l': "fint A (fdiv A (fsub A X' (xs ! 0)) (fsub A (xs ! 1) (xs ! 0)))
      = Converted l'" "j' = min l' (int (length xs) - 2)" by blast
  have "k \<le> k'" by (rule index_monoD [OF assms(1) r(5) assms(7,3) k(1) k'(1)])
  then show "i \<le> i'" using k(2) k'(2) by simp
  have "l \<le> l'" by (rule index_monoD [OF assms(1) r(3) assms(6,2) l(1) l'(1)])
  then show "j \<le> j'" using l(2) l'(2) by simp
qed

text \<open>On a resolved cell of a well-formed grid of doubles.\<close>

lemma resolved_cell64:
  assumes "wf_grid binary64 g" "index_of_point binary64 (x g) (y g) X Y = Inr (i, j)"
  shows "0 \<le> i" "i + 1 < int (length (y g))" "0 \<le> j" "j + 1 < int (length (x g))"
  using resolved_cell [OF assms(1) index_nonneg_binary64 assms(2)] .


lemma resolved_unmasked:
  assumes "wf_grid binary64 g" "index_of_point binary64 (x g) (y g) X Y = Inr (i, j)"
    and "cell_unmasked g i j"
  shows "\<exists>v. evaluate binary64 g (X, Y) = Inr (Some v)"
    "is_masked binary64 g (X, Y) = Inr False"
proof -
  note b = resolved_cell64 [OF assms(1,2)]
  note sh = wf_grid_axes(7) [OF assms(1)]
  from assms(3) have m: "\<not> (corner g i j = None \<or> corner g i (j + 1) = None
     \<or> corner g (i + 1) j = None \<or> corner g (i + 1) (j + 1) = None)"
    by (simp add: cell_unmasked_iff [OF sh b])
  from m show "\<exists>v. evaluate binary64 g (X, Y) = Inr (Some v)"
    by (simp add: evaluate_cell [OF sh assms(2) b(1,3)])
  from m show "is_masked binary64 g (X, Y) = Inr False"
    by (simp add: is_masked_cell [OF sh assms(2) b(1,3)])
qed


text \<open>The domain of a well-formed grid of doubles.\<close>

lemma wf_grid_domain:
  assumes "wf_grid binary64 g"
  shows "dle (x g ! 0) (x g ! 0)" "dle (x g ! 0) (last (x g))" "dle (last (x g)) (last (x g))"
    "dle (y g ! 0) (y g ! 0)" "dle (y g ! 0) (last (y g))" "dle (last (y g)) (last (y g))"
proof -
  note ax = wf_grid_axes [OF assms]
  note o = float_orderD [OF float_order_binary64]
  from ax(5) have lx: "dle (x g ! 0) (last (x g))" by (simp add: binary64_sel dlt_iff)
  from ax(6) have ly: "dle (y g ! 0) (last (y g))" by (simp add: binary64_sel dlt_iff)
  from lx ly o(4) [of "x g ! 0" "last (x g)"] o(5) [of "x g ! 0" "last (x g)"]
    o(4) [of "y g ! 0" "last (y g)"] o(5) [of "y g ! 0" "last (y g)"]
  show "dle (x g ! 0) (x g ! 0)" "dle (x g ! 0) (last (x g))" "dle (last (x g)) (last (x g))"
    "dle (y g ! 0) (y g ! 0)" "dle (y g ! 0) (last (y g))" "dle (last (y g)) (last (y g))"
    by (simp_all add: binary64_sel)
qed

text \<open>The concrete grids are well-formed.\<close>

lemma wf_grid22: "wf_grid binary64 grid22"
  by (simp add: wf_grid_def wf_array2_def grid22_def binary64_sel)

lemma wf_grid43: "wf_grid binary64 grid43"
  by (simp add: wf_grid_def wf_array2_def grid43_def binary64_sel)

lemma wf_ones43: "wf_grid binary64 ones43"
  by (simp add: wf_grid_def wf_array2_def ones43_def binary64_sel)

lemma wf_ones33: "wf_grid binary64 ones33"
  by (simp add: wf_grid_def wf_array2_def ones33_def binary64_sel)

lemma wf_grid_tiny: "wf_grid binary64 grid_tiny"
  using tiny_bounds by (simp add: wf_grid_def wf_array2_def grid_tiny_def binary64_sel)

lemma wf_grid_big: "wf_grid binary64 grid_big"
  by (simp add: wf_grid_def wf_array2_def grid_big_def binary64_sel)

text \<open>
  The offset of a coordinate from itself: when the index quotient of a coordinate has
  been converted, the coordinate is finite and the axis step is neither zero nor NaN, so
  the offset \<open>(V - V) / (a[1] - a[0])\<close> is zero.
\<close>

lemma offset_zero:
  assumes "dint (ddiv (dsub V a) D) = Converted l"
  shows "ddiv (dsub V V) D = Fin 0"
proof (cases V)
  case (Fin v)
  have z: "dsub V V = Fin 0" by (simp add: Fin dsub_def rnd_0)
  show ?thesis
  proof (cases D)
    case (Fin d)
    have "d \<noteq> 0"
    proof
      assume "d = 0"
      with assms Fin show False
        by (cases "dsub V a") (simp_all add: inf_of_def split: if_splits)
    qed
    then show ?thesis by (simp add: z Fin rnd_0)
  next
    case PInf
    then show ?thesis by (simp add: z)
  next
    case NInf
    then show ?thesis by (simp add: z)
  next
    case NaN
    with assms show ?thesis by (cases "dsub V a") simp_all
  qed
next
  case PInf
  with assms show ?thesis
    by (cases a; cases D) (simp_all add: dsub_def inf_of_def split: if_splits)
next
  case NInf
  with assms show ?thesis
    by (cases a; cases D) (simp_all add: dsub_def inf_of_def split: if_splits)
next
  case NaN
  with assms show ?thesis by (simp add: dsub_def)
qed

lemma bilinear_at_corner:
  assumes "finite_double q00" "is_finite d1" "is_finite d2" "is_finite d3"
  shows "dadd (dadd (dadd q00 (dmul (Fin 0) d1)) (dmul (Fin 0) d2)) (dmul (dmul (Fin 0) (Fin 0)) d3)
    = q00"
proof -
  from assms(1) obtain a where a: "q00 = Fin a" "rnd a = Fin a"
    by (cases q00) (simp_all add: finite_double_def)
  from assms(2,3,4) obtain r1 r2 r3 where d: "d1 = Fin r1" "d2 = Fin r2" "d3 = Fin r3"
    by (cases d1; cases d2; cases d3) (simp_all add: is_finite_def)
  show ?thesis by (simp add: a d rnd_0)
qed

text \<open>
  What a returned \<open>subset\<close> of a well-formed grid of doubles is, when the clamped
  rectangle is not empty: the slices at two cells inside the array, the second not before
  the first.
\<close>

lemma subset_structure:
  assumes "wf_grid binary64 g"
    and "dle (pymax binary64 xmin (x g ! 0)) (pymin binary64 xmax (last (x g)))"
    and "dle (pymax binary64 ymin (y g ! 0)) (pymin binary64 ymax (last (y g)))"
    and "subset binary64 g xmin ymin xmax ymax = Inr g'"
  obtains imin jmin imax jmax where
    "index_of_point binary64 (x g) (y g)
       (pymax binary64 xmin (x g ! 0)) (pymax binary64 ymin (y g ! 0)) = Inr (imin, jmin)"
    "index_of_point binary64 (x g) (y g)
       (pymin binary64 xmax (last (x g))) (pymin binary64 ymax (last (y g))) = Inr (imax, jmax)"
    "g' = \<lparr>x = slice (x g) jmin (jmax + 2), y = slice (y g) imin (imax + 2),
           data = slice2 (data g) imin (imax + 2) jmin (jmax + 2)\<rparr>"
    "0 \<le> imin" "imin \<le> imax" "imax + 2 \<le> int (length (y g))"
    "0 \<le> jmin" "jmin \<le> jmax" "jmax + 2 \<le> int (length (x g))"
proof -
  note ax = wf_grid_axes [OF assms(1)]
  from ax(1,2) have ne: "x g \<noteq> []" "y g \<noteq> []" by auto
  from subset_Inr_cases [OF ne ax(7) assms(4)] obtain imin jmin imax jmax where
    lo: "index_of_point binary64 (x g) (y g)
       (pymax binary64 xmin (x g ! 0)) (pymax binary64 ymin (y g ! 0)) = Inr (imin, jmin)"
    and hi: "index_of_point binary64 (x g) (y g)
       (pymin binary64 xmax (last (x g))) (pymin binary64 ymax (last (y g))) = Inr (imax, jmax)"
    and g': "g' = \<lparr>x = slice (x g) jmin (jmax + 2), y = slice (y g) imin (imax + 2),
           data = slice2 (data g) imin (imax + 2) jmin (jmax + 2)\<rparr>"
    by blast
  note bl = resolved_cell64 [OF assms(1) lo] and bh = resolved_cell64 [OF assms(1) hi]
  have ox: "fle binary64 (pymax binary64 xmin (x g ! 0)) (pymin binary64 xmax (last (x g)))"
    and oy: "fle binary64 (pymax binary64 ymin (y g ! 0)) (pymin binary64 ymax (last (y g)))"
    using assms(2,3) by (simp_all add: binary64_sel)
  note m = index_of_point_mono [OF index_mono_binary64 ax(3,4) lo hi ox oy]
  from bh(2,4) have "imax + 2 \<le> int (length (y g))" "jmax + 2 \<le> int (length (x g))"
    by simp_all
  with that [OF lo hi g' bl(1) m(1) _ bl(3) m(2)] show ?thesis by simp
qed

text \<open>
  A point at which the sub-grid resolves the cell \<open>(i, j)\<close> and the grid the cell
  \<open>(imin + i, jmin + j)\<close>: the same four samples and the same coordinates \<open>x[j]\<close>, \<open>y[i]\<close>
  are read, so that with the same first steps the two evaluations are one computation.
\<close>

lemma sub_grid_agrees:
  assumes wf: "wf_grid binary64 g"
    and b: "0 \<le> imin" "imin \<le> imax" "imax + 2 \<le> int (length (y g))"
      "0 \<le> jmin" "jmin \<le> jmax" "jmax + 2 \<le> int (length (x g))"
    and g': "g' = \<lparr>x = slice (x g) jmin (jmax + 2), y = slice (y g) imin (imax + 2),
           data = slice2 (data g) imin (imax + 2) jmin (jmax + 2)\<rparr>"
    and i': "index_of_point binary64 (x g') (y g') X Y = Inr (i, j)"
    and ip: "index_of_point binary64 (x g) (y g) X Y = Inr (imin + i, jmin + j)"
    and sx: "dsub (x g' ! 1) (x g' ! 0) = dsub (x g ! 1) (x g ! 0)"
    and sy: "dsub (y g' ! 1) (y g' ! 0) = dsub (y g ! 1) (y g ! 0)"
  shows "evaluate binary64 g' (X, Y) = evaluate binary64 g (X, Y)"
    and "is_masked binary64 g' (X, Y) = is_masked binary64 g (X, Y)"
proof -
  have wf': "wf_grid binary64 g'" unfolding g' by (rule sub_grid_wf [OF wf b])
  note sh = wf_grid_axes(7) [OF wf] and sh' = wf_grid_axes(7) [OF wf']
  note c = resolved_cell64 [OF wf' i'] and cp = resolved_cell64 [OF wf ip]
  have ly: "imin \<le> imax + 2" and lx: "jmin \<le> jmax + 2" using b(2,5) by simp_all
  note sly = slice_in_range [OF b(1) ly b(3)] and slx = slice_in_range [OF b(4) lx b(6)]
  have len: "length (y g') = nat (imax + 2 - imin)" "length (x g') = nat (jmax + 2 - jmin)"
    by (simp_all add: g' sly(2) slx(2))
  have r: "0 \<le> i" "i < imax + 2 - imin" "0 \<le> i + 1" "i + 1 < imax + 2 - imin"
    "0 \<le> j" "j < jmax + 2 - jmin" "0 \<le> j + 1" "j + 1 < jmax + 2 - jmin"
    using c len ly lx by (simp_all split: if_splits)
  have q: "corner g' i j = corner g (imin + i) (jmin + j)"
    "corner g' i (j + 1) = corner g (imin + i) (jmin + j + 1)"
    "corner g' (i + 1) j = corner g (imin + i + 1) (jmin + j)"
    "corner g' (i + 1) (j + 1) = corner g (imin + i + 1) (jmin + j + 1)"
    unfolding g'
    using sub_grid_corner [OF wf b r(1,2) r(5,6)] sub_grid_corner [OF wf b r(1,2) r(7,8)]
      sub_grid_corner [OF wf b r(3,4) r(5,6)] sub_grid_corner [OF wf b r(3,4) r(7,8)]
    by (simp_all add: add.assoc)
  have "nat j < nat (jmax + 2 - jmin)" "nat i < nat (imax + 2 - imin)" using r by simp_all
  from slx(3) [OF this(1)] sly(3) [OF this(2)]
  have xy: "x g' ! nat j = x g ! nat (jmin + j)" "y g' ! nat i = y g ! nat (imin + i)"
    using b(1,4) r(1,5) by (simp_all add: g' nat_add_distrib)
  show "evaluate binary64 g' (X, Y) = evaluate binary64 g (X, Y)"
    unfolding evaluate_cell [OF sh' i' c(1,3)] evaluate_cell [OF sh ip cp(1,3)]
    by (simp only: q xy sx sy binary64_sel)
  show "is_masked binary64 g' (X, Y) = is_masked binary64 g (X, Y)"
    unfolding is_masked_cell [OF sh' i' c(1,3)] is_masked_cell [OF sh ip cp(1,3)]
    by (simp only: q)
qed

text \<open>The subsets of the concrete grids.\<close>

lemma subset_grid43:
  "subset binary64 grid43 (Fin (1 / 2)) (Fin (1 / 2)) (Fin (3 / 2)) (Fin (3 / 2)) = Inr ones33"
proof -
  note ax = wf_grid_axes [OF wf_grid43]
  from ax(1,2) have ne: "x grid43 \<noteq> []" "y grid43 \<noteq> []" by auto
  have lo: "index_of_point binary64 (x grid43) (y grid43)
      (pymax binary64 (Fin (1 / 2)) (x grid43 ! 0)) (pymax binary64 (Fin (1 / 2)) (y grid43 ! 0))
      = Inr (0, 0)"
    by (simp add: pymax_def source_defs grid43_def binary64_ops)
  have hi: "index_of_point binary64 (x grid43) (y grid43)
      (pymin binary64 (Fin (3 / 2)) (last (x grid43)))
      (pymin binary64 (Fin (3 / 2)) (last (y grid43))) = Inr (1, 1)"
    by (simp add: pymin_def source_defs grid43_def binary64_ops)
  show ?thesis
    unfolding subset_inside [OF ne ax(7) lo hi]
    by (simp add: slice_def slice2_def slice_bound_def grid43_def ones33_def)
qed

lemma subset_ones43:
  "subset binary64 ones43 (Fin (1 / 2)) (Fin (1 / 2)) (Fin (3 / 2)) (Fin (3 / 2)) = Inr ones33"
proof -
  note ax = wf_grid_axes [OF wf_ones43]
  from ax(1,2) have ne: "x ones43 \<noteq> []" "y ones43 \<noteq> []" by auto
  have lo: "index_of_point binary64 (x ones43) (y ones43)
      (pymax binary64 (Fin (1 / 2)) (x ones43 ! 0)) (pymax binary64 (Fin (1 / 2)) (y ones43 ! 0))
      = Inr (0, 0)"
    by (simp add: pymax_def source_defs ones43_def binary64_ops)
  have hi: "index_of_point binary64 (x ones43) (y ones43)
      (pymin binary64 (Fin (3 / 2)) (last (x ones43)))
      (pymin binary64 (Fin (3 / 2)) (last (y ones43))) = Inr (1, 1)"
    by (simp add: pymin_def source_defs ones43_def binary64_ops)
  show ?thesis
    unfolding subset_inside [OF ne ax(7) lo hi]
    by (simp add: slice_def slice2_def slice_bound_def ones43_def ones33_def)
qed

lemma index_grid_back:
  "index_of_point binary64 (x grid_back) (y grid_back) (Fin (5 / 2)) (Fin 0) = Inr (0, - 2)"
  "index_of_point binary64 (x grid_back) (y grid_back) (Fin (5 / 2)) (Fin 1) = Inr (0, - 2)"
  by (simp_all add: source_defs grid_back_def binary64_ops)

lemma clamp_grid_back:
  "pymax binary64 (Fin (5 / 2)) (x grid_back ! 0) = Fin (5 / 2)"
  "pymax binary64 (Fin 0) (y grid_back ! 0) = Fin 0"
  "pymin binary64 (Fin (5 / 2)) (last (x grid_back)) = Fin (5 / 2)"
  "pymin binary64 (Fin 1) (last (y grid_back)) = Fin 1"
  by (simp_all add: pymax_def pymin_def grid_back_def binary64_def)

text \<open>On a strictly increasing axis of doubles, coordinates are ordered as their indices.\<close>

lemma sorted_nth_dle:
  assumes "sorted_wrt dlt a" "2 \<le> length a" "m \<le> n" "n < length a"
  shows "dle (a ! m) (a ! n)"
proof (cases "m < n")
  case True
  from sorted_wrt_nth_less [OF assms(1) True assms(4)] show ?thesis by (simp add: dlt_iff)
next
  case False
  with assms(3) have e: "m = n" by simp
  show ?thesis
  proof (cases "n = 0")
    case True
    with assms(2) have "0 < (1 :: nat)" "1 < length a" by simp_all
    from sorted_wrt_nth_less [OF assms(1) this] have "dlt (a ! 0) (a ! 1)" by simp
    then have "dle (a ! 0) (a ! 1)" by (simp add: dlt_iff)
    from dle_self [OF this] show ?thesis by (simp add: e True)
  next
    case False
    then have "0 < n" by simp
    from sorted_wrt_nth_less [OF assms(1) this assms(4)] have "dle (a ! 0) (a ! n)"
      by (simp add: dlt_iff)
    from dle_self [OF this] show ?thesis by (simp add: e)
  qed
qed

text \<open>The first and the last coordinate of an axis slice.\<close>

lemma slice_ends:
  assumes "0 \<le> lo" "lo \<le> hi" "hi + 2 \<le> int (length a)"
  shows "slice a lo (hi + 2) ! 0 = a ! nat lo" "last (slice a lo (hi + 2)) = a ! nat (hi + 1)"
    "slice a lo (hi + 2) ! 1 = a ! nat (lo + 1)"
proof -
  have l: "lo \<le> hi + 2" using assms(2) by simp
  note s = slice_in_range [OF assms(1) l assms(3)]
  have n: "0 < nat (hi + 2 - lo)" "1 < nat (hi + 2 - lo)" "nat (hi + 2 - lo) - 1 < nat (hi + 2 - lo)"
    using assms(2) by simp_all
  from s(3) [OF n(1)] show "slice a lo (hi + 2) ! 0 = a ! nat lo" by simp
  from s(3) [OF n(2)] show "slice a lo (hi + 2) ! 1 = a ! nat (lo + 1)"
    using assms(1) by (simp add: nat_add_distrib)
  have "slice a lo (hi + 2) \<noteq> []" using s(2) n(1) by auto
  then have "last (slice a lo (hi + 2)) = slice a lo (hi + 2) ! (nat (hi + 2 - lo) - 1)"
    by (simp add: last_conv_nth s(2))
  also have "\<dots> = a ! (nat lo + (nat (hi + 2 - lo) - 1))" by (rule s(3) [OF n(3)])
  also have "nat lo + (nat (hi + 2 - lo) - 1) = nat (hi + 1)" using assms(1,2) by linarith
  finally show "last (slice a lo (hi + 2)) = a ! nat (hi + 1)" .
qed

lemma index_grid_neg:
  "index_of_point binary64 (x grid_neg) (y grid_neg) (Fin (1 - pow2 (- 53))) (Fin 0) = Inr (0, 2)"
  "index_of_point binary64 (x grid_neg) (y grid_neg) (Fin (3 / 2)) (Fin 1) = Inr (0, 2)"
proof -
  have s: "dsub (Fin (1 - pow2 (- 53))) (Fin (- 1)) = Fin 2"
    using rnd_tie_2 by (simp add: dsub_def)
  show "index_of_point binary64 (x grid_neg) (y grid_neg) (Fin (1 - pow2 (- 53))) (Fin 0)
      = Inr (0, 2)"
    using below_1_bounds
    by (simp add: index_of_point_def contains_def cell_of_def getitem_def ebind_def grid_neg_def
        binary64_sel s) (simp add: binary64_ops)
  show "index_of_point binary64 (x grid_neg) (y grid_neg) (Fin (3 / 2)) (Fin 1) = Inr (0, 2)"
    by (simp add: source_defs grid_neg_def binary64_ops)
qed

lemma clamp_grid_neg:
  "pymax binary64 (Fin (1 - pow2 (- 53))) (x grid_neg ! 0) = Fin (1 - pow2 (- 53))"
  "pymax binary64 (Fin 0) (y grid_neg ! 0) = Fin 0"
  "pymin binary64 (Fin (3 / 2)) (last (x grid_neg)) = Fin (3 / 2)"
  "pymin binary64 (Fin 1) (last (y grid_neg)) = Fin 1"
  using below_1_bounds by (simp_all add: pymax_def pymin_def grid_neg_def binary64_def)

lemma subset_grid_neg:
  "subset binary64 grid_neg (Fin (1 - pow2 (- 53))) (Fin 0) (Fin (3 / 2)) (Fin 1)
    = Inr \<lparr>x = [Fin 1, Fin 2], y = [Fin 0, Fin 1],
           data = \<lparr>shape = (2, 2),
                   cells = [[Some (Fin 1), Some (Fin 1)], [Some (Fin 1), Some (Fin 1)]]\<rparr>\<rparr>"
proof -
  have ne: "x grid_neg \<noteq> []" "y grid_neg \<noteq> []"
    and sh: "shape (data grid_neg) = (length (y grid_neg), length (x grid_neg))"
    by (simp_all add: grid_neg_def)
  have "subset binary64 grid_neg (Fin (1 - pow2 (- 53))) (Fin 0) (Fin (3 / 2)) (Fin 1)
      = Inr \<lparr>x = slice (x grid_neg) 2 (2 + 2), y = slice (y grid_neg) 0 (0 + 2),
             data = slice2 (data grid_neg) 0 (0 + 2) 2 (2 + 2)\<rparr>"
    by (rule subset_inside [OF ne sh]) (simp_all only: clamp_grid_neg index_grid_neg)
  then show ?thesis
    by (simp add: slice_def slice2_def slice_bound_def grid_neg_def)
qed

lemma evaluate_grid_wide:
  "evaluate binary64 grid_wide (x grid_wide ! 0, y grid_wide ! 0) = Inr (Some NaN)"
  using pow2_pos [of 1023]
  by (simp add: source_defs grid_wide_def binary64_ops rnd_2_1023 rnd_overflow)

lemma subset_grid_tiny:
  "subset binary64 grid_tiny (Fin 0) (Fin 0) (Fin 1) (Fin 1) = Inl OverflowError"
proof -
  have ne: "x grid_tiny \<noteq> []" "y grid_tiny \<noteq> []"
    and sh: "shape (data grid_tiny) = (length (y grid_tiny), length (x grid_tiny))"
    by (simp_all add: grid_tiny_def)
  have c: "pymax binary64 (Fin 0) (x grid_tiny ! 0) = Fin 0"
    "pymax binary64 (Fin 0) (y grid_tiny ! 0) = Fin 0"
    "pymin binary64 (Fin 1) (last (x grid_tiny)) = Fin 1"
    "pymin binary64 (Fin 1) (last (y grid_tiny)) = Fin 1"
    by (simp_all add: pymax_def pymin_def grid_tiny_def binary64_def)
  have lo: "index_of_point binary64 (x grid_tiny) (y grid_tiny) (Fin 0) (Fin 0) = Inr (0, 0)"
    by (simp add: source_defs grid_tiny_def binary64_ops rnd_tiny tiny_bounds)
  have hi: "index_of_point binary64 (x grid_tiny) (y grid_tiny) (Fin 1) (Fin 1)
      = Inl OverflowError"
    by (simp add: source_defs grid_tiny_def binary64_ops rnd_tiny tiny_bounds rnd_huge)
  show ?thesis
    by (rule subset_second_error [OF ne sh]) (simp_all only: c lo hi)
qed

section \<open>The claims\<close>

text \<open>
  C1. On a well-formed grid, at a point whose cell \<open>(i, j)\<close> has four unmasked corners
  \<open>q00\<close>, \<open>q01\<close>, \<open>q10\<close>, \<open>q11\<close>, the evaluation returns
  \<open>q00 + ax (q01 - q00) + ay (q10 - q00) + ax ay (q00 + q11 - q10 - q01)\<close> with
  \<open>ax = (X - x[j]) / (x[1] - x[0])\<close> and \<open>ay = (Y - y[i]) / (y[1] - y[0])\<close>, every
  operation being the one of binary64, in the order in which Python applies them; on the
  grid \<open>x = [0, 1]\<close>, \<open>y = [0, 1]\<close>, values \<open>[[0, 1], [2, 3]]\<close> the value at \<open>(0.5, 0.5)\<close>
  is \<open>1.5\<close>. Uniform spacing is not needed for this.
\<close>

theorem evaluate_bilinear_formula:
  assumes "wf_grid binary64 g" and "index_of_point binary64 (x g) (y g) X Y = Inr (i, j)"
    and "grid_getitem g i j = Inr (Some q00)" and "grid_getitem g i (j + 1) = Inr (Some q01)"
    and "grid_getitem g (i + 1) j = Inr (Some q10)"
    and "grid_getitem g (i + 1) (j + 1) = Inr (Some q11)"
  shows "(let ax = ddiv (dsub X (x g ! nat j)) (dsub (x g ! 1) (x g ! 0));
              ay = ddiv (dsub Y (y g ! nat i)) (dsub (y g ! 1) (y g ! 0))
          in evaluate binary64 g (X, Y) =
             Inr (Some (dadd (dadd (dadd q00 (dmul ax (dsub q01 q00))) (dmul ay (dsub q10 q00)))
                             (dmul (dmul ax ay) (dsub (dsub (dadd q00 q11) q10) q01)))))
         \<and> evaluate binary64 grid22 (Fin (1 / 2), Fin (1 / 2)) = Inr (Some (Fin (3 / 2)))"
proof -
  note b = resolved_cell64 [OF assms(1,2)]
  note sh = wf_grid_axes(7) [OF assms(1)]
  note rd = corner_reads [OF sh b]
  have c: "corner g i j = Some q00" "corner g i (j + 1) = Some q01"
    "corner g (i + 1) j = Some q10" "corner g (i + 1) (j + 1) = Some q11"
    using assms(3-6) rd by simp_all
  have general: "evaluate binary64 g (X, Y) =
      Inr (Some (bilinear binary64 q00 q01 q10 q11
        (ddiv (dsub X (x g ! nat j)) (dsub (x g ! 1) (x g ! 0)))
        (ddiv (dsub Y (y g ! nat i)) (dsub (y g ! 1) (y g ! 0)))))"
    by (simp add: evaluate_cell [OF sh assms(2) b(1,3)] c binary64_sel)
  have "evaluate binary64 grid22 (Fin (1 / 2), Fin (1 / 2)) = Inr (Some (Fin (3 / 2)))"
    by (simp add: source_defs grid22_def binary64_ops)
  with general show ?thesis by (simp add: Let_def bilinear_def binary64_sel)
qed

theorem evaluate_bilinear_formula_witness:
  "wf_grid binary64 grid22
   \<and> index_of_point binary64 (x grid22) (y grid22) (Fin (1 / 4)) (Fin (3 / 4)) = Inr (0, 0)
   \<and> grid_getitem grid22 0 0 = Inr (Some (Fin 0)) \<and> grid_getitem grid22 0 1 = Inr (Some (Fin 1))
   \<and> grid_getitem grid22 1 0 = Inr (Some (Fin 2)) \<and> grid_getitem grid22 1 1 = Inr (Some (Fin 3))
   \<and> evaluate binary64 grid22 (Fin (1 / 4), Fin (3 / 4)) = Inr (Some (Fin (7 / 4)))"
proof -
  have ix: "index_of_point binary64 (x grid22) (y grid22) (Fin (1 / 4)) (Fin (3 / 4)) = Inr (0, 0)"
    by (simp add: source_defs grid22_def binary64_ops)
  have rd: "grid_getitem grid22 0 0 = Inr (Some (Fin 0))"
    "grid_getitem grid22 0 (0 + 1) = Inr (Some (Fin 1))"
    "grid_getitem grid22 (0 + 1) 0 = Inr (Some (Fin 2))"
    "grid_getitem grid22 (0 + 1) (0 + 1) = Inr (Some (Fin 3))"
    by (simp_all add: grid_getitem_def getitem2_def grid22_def)
  have "evaluate binary64 grid22 (Fin (1 / 4), Fin (3 / 4)) = Inr (Some (Fin (7 / 4)))"
    using evaluate_bilinear_formula [OF wf_grid22 ix rd]
    by (simp add: Let_def grid22_def binary64_ops)
  with ix rd wf_grid22 show ?thesis by simp
qed



text \<open>
  The resolved cell is the one that the index computation returns, and a point inside
  the closed domain rectangle need not resolve to a cell. The grid
  \<open>x = [0, 2\<^sup>-\<^sup>1\<^sup>0\<^sup>7\<^sup>4, 1]\<close>, \<open>y = [0, 1]\<close> is well-formed (\<open>2\<^sup>-\<^sup>1\<^sup>0\<^sup>7\<^sup>4\<close> is the smallest
  positive double) and none of its samples is masked. The point \<open>(1, 0.5)\<close> is in the
  domain, and the index quotient \<open>(1 - 0) / (2\<^sup>-\<^sup>1\<^sup>0\<^sup>7\<^sup>4 - 0)\<close> overflows to infinity:
  \<^verbatim>\<open>int\<close> raises \<^verbatim>\<open>OverflowError\<close>, in the evaluation and in \<open>is_masked\<close>.
\<close>

theorem unresolved_point_example:
  "wf_grid binary64 grid_tiny \<and> finite_double (x grid_tiny ! 1)
   \<and> dle (x grid_tiny ! 0) (Fin 1) \<and> dle (Fin 1) (last (x grid_tiny))
   \<and> dle (y grid_tiny ! 0) (Fin (1 / 2)) \<and> dle (Fin (1 / 2)) (last (y grid_tiny))
   \<and> cell_unmasked grid_tiny 0 0 \<and> cell_unmasked grid_tiny 0 1
   \<and> evaluate binary64 grid_tiny (Fin 1, Fin (1 / 2)) = Inl OverflowError
   \<and> is_masked binary64 grid_tiny (Fin 1, Fin (1 / 2)) = Inl OverflowError"
proof -
  have "dle (x grid_tiny ! 0) (Fin 1) \<and> dle (Fin 1) (last (x grid_tiny))
      \<and> dle (y grid_tiny ! 0) (Fin (1 / 2)) \<and> dle (Fin (1 / 2)) (last (y grid_tiny))"
    by (simp add: grid_tiny_def)
  moreover have "cell_unmasked grid_tiny 0 0 \<and> cell_unmasked grid_tiny 0 1"
    by (simp add: cell_unmasked_def unmasked_def grid_getitem_def getitem2_def grid_tiny_def)
  moreover have "index_of_point binary64 (x grid_tiny) (y grid_tiny) (Fin 1) (Fin (1 / 2))
      = Inl OverflowError"
    by (simp add: source_defs grid_tiny_def binary64_ops rnd_tiny tiny_bounds rnd_huge)
  note evaluate_index_error [OF this]
  moreover have "finite_double (x grid_tiny ! 1)"
    by (simp add: finite_double_def grid_tiny_def rnd_tiny)
  ultimately show ?thesis using wf_grid_tiny by simp
qed

text \<open>
  C3, as the code has it. On a grid with non-empty axes, the evaluation and \<open>is_masked\<close>
  fail with the out-of-domain error exactly when the comparison
  \<open>x[0] \<le> X \<le> x[-1] and y[0] \<le> Y \<le> y[-1]\<close> of doubles is false. On a well-formed grid the
  two boundary points \<open>(x[0], y[0])\<close> and \<open>(x[-1], y[-1])\<close> are in the domain: the evaluation
  there does not fail with the out-of-domain error, and it returns a number whenever the
  index computation returns a cell and the corners of that cell are unmasked. At every
  point \<open>(X, y[0])\<close> with a double \<open>X < x[0]\<close> both fail with the out-of-domain error.
\<close>

theorem out_of_domain_iff:
  assumes "x g \<noteq> []" and "y g \<noteq> []"
  shows "(evaluate binary64 g (X, Y) = Inl OutOfDomain \<longleftrightarrow>
            \<not> (dle (x g ! 0) X \<and> dle X (last (x g)) \<and> dle (y g ! 0) Y \<and> dle Y (last (y g))))
       \<and> (is_masked binary64 g (X, Y) = Inl OutOfDomain \<longleftrightarrow>
            \<not> (dle (x g ! 0) X \<and> dle X (last (x g)) \<and> dle (y g ! 0) Y \<and> dle Y (last (y g))))
       \<and> (wf_grid binary64 g \<longrightarrow>
            evaluate binary64 g (x g ! 0, y g ! 0) \<noteq> Inl OutOfDomain
          \<and> evaluate binary64 g (last (x g), last (y g)) \<noteq> Inl OutOfDomain
          \<and> (\<forall>i j. index_of_point binary64 (x g) (y g) (x g ! 0) (y g ! 0) = Inr (i, j)
                 \<and> cell_unmasked g i j \<longrightarrow>
                 (\<exists>v. evaluate binary64 g (x g ! 0, y g ! 0) = Inr (Some v)))
          \<and> (\<forall>i j. index_of_point binary64 (x g) (y g) (last (x g)) (last (y g)) = Inr (i, j)
                 \<and> cell_unmasked g i j \<longrightarrow>
                 (\<exists>v. evaluate binary64 g (last (x g), last (y g)) = Inr (Some v))))
       \<and> (\<forall>X'. dlt X' (x g ! 0) \<longrightarrow>
             evaluate binary64 g (X', y g ! 0) = Inl OutOfDomain
           \<and> is_masked binary64 g (X', y g ! 0) = Inl OutOfDomain)"
proof -
  note iff = index_of_point_OutOfDomain_iff [OF assms, of binary64, unfolded binary64_sel]
  have e: "evaluate binary64 g (X, Y) = Inl OutOfDomain \<longleftrightarrow>
      \<not> (dle (x g ! 0) X \<and> dle X (last (x g)) \<and> dle (y g ! 0) Y \<and> dle Y (last (y g)))" for X Y
    by (simp add: evaluate_def bilinear_interp_OutOfDomain iff)
  have m: "is_masked binary64 g (X, Y) = Inl OutOfDomain \<longleftrightarrow>
      \<not> (dle (x g ! 0) X \<and> dle X (last (x g)) \<and> dle (y g ! 0) Y \<and> dle Y (last (y g)))" for X Y
    by (simp add: is_masked_OutOfDomain iff)
  have b: "evaluate binary64 g (x g ! 0, y g ! 0) \<noteq> Inl OutOfDomain
          \<and> evaluate binary64 g (last (x g), last (y g)) \<noteq> Inl OutOfDomain
          \<and> (\<forall>i j. index_of_point binary64 (x g) (y g) (x g ! 0) (y g ! 0) = Inr (i, j)
                 \<and> cell_unmasked g i j \<longrightarrow>
                 (\<exists>v. evaluate binary64 g (x g ! 0, y g ! 0) = Inr (Some v)))
          \<and> (\<forall>i j. index_of_point binary64 (x g) (y g) (last (x g)) (last (y g)) = Inr (i, j)
                 \<and> cell_unmasked g i j \<longrightarrow>
                 (\<exists>v. evaluate binary64 g (last (x g), last (y g)) = Inr (Some v)))"
    if wf: "wf_grid binary64 g"
  proof -
    note d = wf_grid_domain [OF wf]
    have "evaluate binary64 g (x g ! 0, y g ! 0) \<noteq> Inl OutOfDomain"
      "evaluate binary64 g (last (x g), last (y g)) \<noteq> Inl OutOfDomain"
      using d by (simp_all add: e)
    moreover have "\<forall>i j. index_of_point binary64 (x g) (y g) X Y = Inr (i, j)
        \<and> cell_unmasked g i j \<longrightarrow> (\<exists>v. evaluate binary64 g (X, Y) = Inr (Some v))" for X Y
      using resolved_unmasked(1) [OF wf, of X Y] by blast
    ultimately show ?thesis by (intro conjI) assumption+
  qed
  have o: "evaluate binary64 g (X', y g ! 0) = Inl OutOfDomain
      \<and> is_masked binary64 g (X', y g ! 0) = Inl OutOfDomain" if "dlt X' (x g ! 0)" for X'
    using that by (simp add: e m dlt_iff)
  from e [of X Y] m [of X Y] b o show ?thesis by simp
qed

theorem out_of_domain_iff_witness:
  "x grid22 \<noteq> [] \<and> y grid22 \<noteq> [] \<and> wf_grid binary64 grid22 \<and> cell_unmasked grid22 0 0
   \<and> index_of_point binary64 (x grid22) (y grid22) (last (x grid22)) (last (y grid22)) = Inr (0, 0)
   \<and> evaluate binary64 grid22 (Fin 2, Fin 0) = Inl OutOfDomain
   \<and> is_masked binary64 grid22 (Fin 2, Fin 0) = Inl OutOfDomain
   \<and> (\<exists>v. evaluate binary64 grid22 (last (x grid22), last (y grid22)) = Inr (Some v))
   \<and> dlt (Fin (- 1)) (x grid22 ! 0)
   \<and> evaluate binary64 grid22 (Fin (- 1), Fin 0) = Inl OutOfDomain"
proof -
  have ne: "x grid22 \<noteq> []" "y grid22 \<noteq> []" by (simp_all add: grid22_def)
  have u: "cell_unmasked grid22 0 0"
    by (simp add: cell_unmasked_def unmasked_def grid_getitem_def getitem2_def grid22_def)
  have far: "evaluate binary64 grid22 (Fin 2, Fin 0) = Inl OutOfDomain
      \<and> is_masked binary64 grid22 (Fin 2, Fin 0) = Inl OutOfDomain"
    using out_of_domain_iff [OF ne, of "Fin 2" "Fin 0"] by (simp add: grid22_def)
  have l: "dlt (Fin (- 1)) (x grid22 ! 0)" by (simp add: grid22_def)
  have y0: "y grid22 ! 0 = Fin 0" by (simp add: grid22_def)
  have below: "evaluate binary64 grid22 (Fin (- 1), Fin 0) = Inl OutOfDomain"
    using out_of_domain_iff [OF ne, of "Fin 0" "Fin 0"] l unfolding y0 by blast
  have ix: "index_of_point binary64 (x grid22) (y grid22) (last (x grid22)) (last (y grid22))
      = Inr (0, 0)"
    by (simp add: source_defs grid22_def binary64_ops)
  have "\<exists>v. evaluate binary64 grid22 (last (x grid22), last (y grid22)) = Inr (Some v)"
    using out_of_domain_iff [OF ne, of "Fin 0" "Fin 0"] wf_grid22 ix u by blast
  with ne wf_grid22 u ix far l below show ?thesis by simp
qed

text \<open>
  A boundary point need not evaluate, and a point below the boundary in exact arithmetic
  need not be below it in doubles. On the grid \<open>x = [0, 2\<^sup>-\<^sup>1\<^sup>0\<^sup>7\<^sup>4, 1]\<close>, \<open>y = [0, 1]\<close>, where
  no sample is masked, the evaluation at \<open>(x[-1], y[-1])\<close> raises \<^verbatim>\<open>OverflowError\<close>. On
  the grid \<open>x = [1, 2]\<close>, \<open>y = [0, 1]\<close> and with \<open>eps = 2\<^sup>-\<^sup>6\<^sup>0 > 0\<close>, the double \<open>x[0] - eps\<close> is
  \<open>x[0]\<close> itself, and the evaluation at \<open>(x[0] - eps, y[0])\<close> returns 1.
\<close>

theorem boundary_counterexample:
  "wf_grid binary64 grid_tiny \<and> cell_unmasked grid_tiny 0 0 \<and> cell_unmasked grid_tiny 0 1
   \<and> evaluate binary64 grid_tiny (last (x grid_tiny), last (y grid_tiny)) = Inl OverflowError
   \<and> finite_double (Fin (pow2 (- 60))) \<and> dlt (Fin 0) (Fin (pow2 (- 60)))
   \<and> dsub (x grid_off ! 0) (Fin (pow2 (- 60))) = x grid_off ! 0
   \<and> evaluate binary64 grid_off (dsub (x grid_off ! 0) (Fin (pow2 (- 60))), y grid_off ! 0)
       = Inr (Some (Fin 1))"
proof -
  have "cell_unmasked grid_tiny 0 0 \<and> cell_unmasked grid_tiny 0 1"
    by (simp add: cell_unmasked_def unmasked_def grid_getitem_def getitem2_def grid_tiny_def)
  moreover have "evaluate binary64 grid_tiny (last (x grid_tiny), last (y grid_tiny))
      = Inl OverflowError"
    by (simp add: source_defs grid_tiny_def binary64_ops rnd_tiny tiny_bounds rnd_huge)
  moreover have "dlt (Fin 0) (Fin (pow2 (- 60)))" by (simp add: pow2_pos)
  moreover have "finite_double (Fin (pow2 (- 60)))"
    using rnd_exact [of "pow2 (- 60)" 1 "- 60"] by (simp add: finite_double_def)
  moreover have s: "dsub (x grid_off ! 0) (Fin (pow2 (- 60))) = x grid_off ! 0"
    using rnd_absorbed by (simp add: grid_off_def dsub_def)
  moreover have "evaluate binary64 grid_off (x grid_off ! 0, y grid_off ! 0) = Inr (Some (Fin 1))"
    by (simp add: source_defs grid_off_def binary64_ops)
  ultimately show ?thesis using wf_grid_tiny by (simp only: s simp_thms)
qed

text \<open>
  C4, as the code has it. On a well-formed grid, for a requested rectangle that reaches
  the domain on each axis (\<open>xmin \<le> x[-1]\<close>, \<open>x[0] \<le> xmax\<close>, \<open>ymin \<le> y[-1]\<close>,
  \<open>y[0] \<le> ymax\<close>), which includes every rectangle partially outside the domain, \<open>subset\<close>
  does not fail with the out-of-domain error: the corners clamped with \<^verbatim>\<open>max\<close> and
  \<^verbatim>\<open>min\<close> pass the domain check, and when the index computation returns a cell for
  both, \<open>subset\<close> returns the grid sliced at these cells. A rectangle with \<open>xmin\<close> beyond \<open>x[-1]\<close>
  or \<open>ymin\<close> beyond \<open>y[-1]\<close> fails with the out-of-domain error, and one with \<open>xmax\<close> before
  \<open>x[0]\<close> or \<open>ymax\<close> before \<open>y[0]\<close> fails. The only errors of \<open>subset\<close> are those of the index
  computation.
\<close>

theorem subset_clamps:
  assumes "wf_grid binary64 g"
  shows "(dle xmin (last (x g)) \<and> dle (x g ! 0) xmax \<and> dle ymin (last (y g)) \<and> dle (y g ! 0) ymax
          \<longrightarrow>
            index_of_point binary64 (x g) (y g)
                (pymax binary64 xmin (x g ! 0)) (pymax binary64 ymin (y g ! 0)) \<noteq> Inl OutOfDomain
          \<and> index_of_point binary64 (x g) (y g)
                (pymin binary64 xmax (last (x g))) (pymin binary64 ymax (last (y g)))
              \<noteq> Inl OutOfDomain
          \<and> subset binary64 g xmin ymin xmax ymax \<noteq> Inl OutOfDomain
          \<and> (\<forall>imin jmin imax jmax.
                index_of_point binary64 (x g) (y g)
                    (pymax binary64 xmin (x g ! 0)) (pymax binary64 ymin (y g ! 0))
                  = Inr (imin, jmin)
              \<and> index_of_point binary64 (x g) (y g)
                    (pymin binary64 xmax (last (x g))) (pymin binary64 ymax (last (y g)))
                  = Inr (imax, jmax)
              \<longrightarrow> subset binary64 g xmin ymin xmax ymax =
                    Inr \<lparr>x = slice (x g) jmin (jmax + 2), y = slice (y g) imin (imax + 2),
                         data = slice2 (data g) imin (imax + 2) jmin (jmax + 2)\<rparr>))
       \<and> (\<not> (dle xmin (last (x g)) \<and> dle ymin (last (y g))) \<longrightarrow>
            subset binary64 g xmin ymin xmax ymax = Inl OutOfDomain)
       \<and> (\<not> (dle (x g ! 0) xmax \<and> dle (y g ! 0) ymax) \<longrightarrow>
            (\<exists>e. subset binary64 g xmin ymin xmax ymax = Inl e))
       \<and> (\<forall>e. subset binary64 g xmin ymin xmax ymax = Inl e \<longrightarrow>
            e = OutOfDomain \<or> e = OverflowError \<or> e = NanConversion)"
proof -
  note ax = wf_grid_axes [OF assms] and d = wf_grid_domain [OF assms]
  from ax(1,2) have ne: "x g \<noteq> []" "y g \<noteq> []" by auto
  note fo = float_order_binary64
  let ?I1 = "index_of_point binary64 (x g) (y g)
      (pymax binary64 xmin (x g ! 0)) (pymax binary64 ymin (y g ! 0))"
  let ?I2 = "index_of_point binary64 (x g) (y g)
      (pymin binary64 xmax (last (x g))) (pymin binary64 ymax (last (y g)))"
  let ?S = "subset binary64 g xmin ymin xmax ymax"
  have dx: "fle binary64 (x g ! 0) (last (x g))" and dy: "fle binary64 (y g ! 0) (last (y g))"
    using d(2,5) by (simp_all add: binary64_sel)
  have kinds: "e = OutOfDomain \<or> e = OverflowError \<or> e = NanConversion" if "?S = Inl e" for e
    using subset_error_kinds [OF ax(1,2,7) that] .
  have returned: "?S = Inr \<lparr>x = slice (x g) jmin (jmax + 2), y = slice (y g) imin (imax + 2),
      data = slice2 (data g) imin (imax + 2) jmin (jmax + 2)\<rparr>"
    if "?I1 = Inr (imin, jmin) \<and> ?I2 = Inr (imax, jmax)" for imin jmin imax jmax
    using that subset_inside [OF ne ax(7), of binary64 xmin ymin imin jmin xmax ymax imax jmax]
    by simp
  have reach: "?I1 \<noteq> Inl OutOfDomain \<and> ?I2 \<noteq> Inl OutOfDomain \<and> ?S \<noteq> Inl OutOfDomain"
    if r: "dle xmin (last (x g)) \<and> dle (x g ! 0) xmax \<and> dle ymin (last (y g)) \<and> dle (y g ! 0) ymax"
  proof -
    from r have rr: "fle binary64 xmin (last (x g))" "fle binary64 (x g ! 0) xmax"
      "fle binary64 ymin (last (y g))" "fle binary64 (y g ! 0) ymax"
      by (simp_all add: binary64_sel)
    note cx = clamp_in_domain [OF fo dx rr(1,2)] and cy = clamp_in_domain [OF fo dy rr(3,4)]
    have n1: "?I1 \<noteq> Inl OutOfDomain"
      using cx(1,2) cy(1,2) by (simp add: index_of_point_OutOfDomain_iff [OF ne])
    have n2: "?I2 \<noteq> Inl OutOfDomain"
      using cx(3,4) cy(3,4) by (simp add: index_of_point_OutOfDomain_iff [OF ne])
    have "?S \<noteq> Inl OutOfDomain"
    proof
      assume "?S = Inl OutOfDomain"
      then show False
        unfolding subset_unfold [OF ne ax(7)] using n1 n2
        by (auto elim!: ebind_Inl_cases)
    qed
    with n1 n2 show ?thesis by simp
  qed
  have beyond: "?S = Inl OutOfDomain" if b: "\<not> (dle xmin (last (x g)) \<and> dle ymin (last (y g)))"
  proof -
    from b have "\<not> fle binary64 xmin (last (x g)) \<or> \<not> fle binary64 ymin (last (y g))"
      by (simp add: binary64_sel)
    then have "\<not> fle binary64 (pymax binary64 xmin (x g ! 0)) (last (x g))
        \<or> \<not> fle binary64 (pymax binary64 ymin (y g ! 0)) (last (y g))"
      using clamp_beyond [OF fo dx, of xmin] clamp_beyond [OF fo dy, of ymin] by auto
    then have "?I1 = Inl OutOfDomain"
      by (intro index_of_point_outside [OF ne]) auto
    then show ?thesis by (rule subset_first_error [OF ne ax(7)])
  qed
  have before: "\<exists>e. ?S = Inl e" if b: "\<not> (dle (x g ! 0) xmax \<and> dle (y g ! 0) ymax)"
  proof -
    from b have "\<not> fle binary64 (x g ! 0) xmax \<or> \<not> fle binary64 (y g ! 0) ymax"
      by (simp add: binary64_sel)
    then have "\<not> fle binary64 (x g ! 0) (pymin binary64 xmax (last (x g)))
        \<or> \<not> fle binary64 (y g ! 0) (pymin binary64 ymax (last (y g)))"
      using clamp_before [OF fo dx, of xmax] clamp_before [OF fo dy, of ymax] by auto
    then have i2: "?I2 = Inl OutOfDomain"
      by (intro index_of_point_outside [OF ne]) auto
    show ?thesis
    proof (cases ?I1)
      case (Inl e)
      from subset_first_error [OF ne ax(7) this] show ?thesis by blast
    next
      case (Inr c)
      then have "?I1 = Inr (fst c, snd c)" by simp
      from subset_second_error [OF ne ax(7) this i2] show ?thesis by blast
    qed
  qed
  from kinds returned reach beyond before show ?thesis by blast
qed

theorem subset_clamps_witness:
  "wf_grid binary64 grid43
   \<and> dle (Fin (- 1)) (last (x grid43)) \<and> dle (x grid43 ! 0) (Fin (3 / 2))
   \<and> dle (Fin (- 1)) (last (y grid43)) \<and> dle (y grid43 ! 0) (Fin 7)
   \<and> index_of_point binary64 (x grid43) (y grid43)
        (pymax binary64 (Fin (- 1)) (x grid43 ! 0)) (pymax binary64 (Fin (- 1)) (y grid43 ! 0))
        = Inr (0, 0)
   \<and> index_of_point binary64 (x grid43) (y grid43)
        (pymin binary64 (Fin (3 / 2)) (last (x grid43))) (pymin binary64 (Fin 7) (last (y grid43)))
        = Inr (1, 1)
   \<and> subset binary64 grid43 (Fin (- 1)) (Fin (- 1)) (Fin (3 / 2)) (Fin 7) =
        Inr \<lparr>x = slice (x grid43) 0 (1 + 2), y = slice (y grid43) 0 (1 + 2),
             data = slice2 (data grid43) 0 (1 + 2) 0 (1 + 2)\<rparr>
   \<and> subset binary64 grid43 (Fin 4) (Fin 0) (Fin 5) (Fin 1) = Inl OutOfDomain"
proof -
  have d: "dle (Fin (- 1)) (last (x grid43)) \<and> dle (x grid43 ! 0) (Fin (3 / 2))
      \<and> dle (Fin (- 1)) (last (y grid43)) \<and> dle (y grid43 ! 0) (Fin 7)"
    by (simp add: grid43_def)
  have lo: "index_of_point binary64 (x grid43) (y grid43)
        (pymax binary64 (Fin (- 1)) (x grid43 ! 0)) (pymax binary64 (Fin (- 1)) (y grid43 ! 0))
        = Inr (0, 0)"
    by (simp add: pymax_def source_defs grid43_def binary64_ops)
  have hi: "index_of_point binary64 (x grid43) (y grid43)
        (pymin binary64 (Fin (3 / 2)) (last (x grid43))) (pymin binary64 (Fin 7) (last (y grid43)))
        = Inr (1, 1)"
    by (simp add: pymin_def source_defs grid43_def binary64_ops)
  have "subset binary64 grid43 (Fin (- 1)) (Fin (- 1)) (Fin (3 / 2)) (Fin 7) =
        Inr \<lparr>x = slice (x grid43) 0 (1 + 2), y = slice (y grid43) 0 (1 + 2),
             data = slice2 (data grid43) 0 (1 + 2) 0 (1 + 2)\<rparr>"
    using subset_clamps [OF wf_grid43, of "Fin (- 1)" "Fin (3 / 2)" "Fin (- 1)" "Fin 7"] d lo hi
    by blast
  moreover have "subset binary64 grid43 (Fin 4) (Fin 0) (Fin 5) (Fin 1) = Inl OutOfDomain"
    using subset_clamps [OF wf_grid43, of "Fin 4" "Fin 5" "Fin 0" "Fin 1"]
    by (simp add: grid43_def)
  ultimately show ?thesis using wf_grid43 d lo hi by simp
qed

text \<open>
  A rectangle fully outside the domain is not clamped without error. On the grid
  \<open>x = [0, 1]\<close>, \<open>y = [0, 1]\<close> the rectangle \<open>(5, 5, 6, 6)\<close> is clamped to the corner
  \<open>(5, 5)\<close>, which is not in the domain, and \<open>subset\<close> fails. A rectangle inside the
  domain can fail as well: on the well-formed grid \<open>x = [0, 2\<^sup>-\<^sup>1\<^sup>0\<^sup>7\<^sup>4, 1]\<close>, \<open>y = [0, 1]\<close> the
  rectangle \<open>(0, 0, 1, 1)\<close> is the domain itself, and the index quotient of its upper corner
  overflows.
\<close>

theorem subset_outside_counterexample:
  "subset binary64 grid22 (Fin 5) (Fin 5) (Fin 6) (Fin 6) = Inl OutOfDomain
   \<and> wf_grid binary64 grid_tiny
   \<and> subset binary64 grid_tiny (Fin 0) (Fin 0) (Fin 1) (Fin 1) = Inl OverflowError"
proof -
  have "subset binary64 grid22 (Fin 5) (Fin 5) (Fin 6) (Fin 6) = Inl OutOfDomain"
    by (simp add: subset_def pymax_def pymin_def Let_def source_defs grid22_def binary64_ops)
  with wf_grid_tiny subset_grid_tiny show ?thesis by simp
qed

text \<open>
  C5, as the code has it. With axes that match the shape of the data, the constructor
  fails with the missing-mask-specification error exactly when the data is a plain array
  and neither a mask nor a missing-data value is given. It succeeds whenever at least one
  specification is given (an explicit mask has to fit the data), and takes the first of:
  the mask of a masked array, the missing-data value, the explicit mask.
\<close>

theorem init_mask_specification:
  assumes "length xs = snd (ndarray_shape d)" and "length ys = fst (ndarray_shape d)"
  shows "(init A xs ys d msk mdv = Inl UnspecifiedMask \<longleftrightarrow>
            (\<exists>a. d = Plain a) \<and> msk = None \<and> mdv = None)
       \<and> (\<forall>a. d = MaskedArray a \<longrightarrow> init A xs ys d msk mdv = Inr \<lparr>x = xs, y = ys, data = a\<rparr>)
       \<and> (\<forall>a v. d = Plain a \<and> mdv = Some v \<longrightarrow>
             init A xs ys d msk mdv = Inr \<lparr>x = xs, y = ys, data = masked_equal A a v\<rparr>)
       \<and> (\<forall>a m. d = Plain a \<and> mdv = None \<and> msk = Some m \<and> shape m = shape a \<longrightarrow>
             init A xs ys d msk mdv =
               Inr \<lparr>x = xs, y = ys,
                    data = \<lparr>shape = shape a,
                            cells = map2 (map2 (\<lambda>u b. if b then None else Some u))
                                      (cells a) (cells m)\<rparr>\<rparr>)"
proof (cases d)
  case (Plain a)
  with assms have s: "length xs = snd (shape a)" "length ys = fst (shape a)" by simp_all
  have "init A xs ys d msk mdv = Inl UnspecifiedMask \<longleftrightarrow> msk = None \<and> mdv = None"
    using s Plain
    by (auto simp add: init_def ebind_def split: option.splits sum.splits prod.splits
        dest: with_mask_error)
  moreover have "mdv = Some v \<longrightarrow>
      init A xs ys d msk mdv = Inr \<lparr>x = xs, y = ys, data = masked_equal A a v\<rparr>" for v
    using s Plain by (simp add: init_def split: prod.splits)
  moreover have "mdv = None \<and> msk = Some m \<and> shape m = shape a \<longrightarrow>
      init A xs ys d msk mdv =
        Inr \<lparr>x = xs, y = ys,
             data = \<lparr>shape = shape a,
                     cells = map2 (map2 (\<lambda>u b. if b then None else Some u))
                               (cells a) (cells m)\<rparr>\<rparr>" for m
    using s Plain by (simp add: init_def with_mask_same_shape ebind_def split: prod.splits)
  ultimately show ?thesis using Plain by simp
next
  case (MaskedArray a)
  with assms have s: "length xs = snd (shape a)" "length ys = fst (shape a)" by simp_all
  then have "init A xs ys d msk mdv = Inr \<lparr>x = xs, y = ys, data = a\<rparr>"
    using MaskedArray by (simp add: init_def split: prod.splits)
  then show ?thesis using MaskedArray by simp
qed

theorem init_mask_specification_witness:
  "length [Fin 0, Fin 1] = snd (ndarray_shape (Plain plain22))
   \<and> length [Fin 0, Fin 1] = fst (ndarray_shape (Plain plain22))
   \<and> init binary64 [Fin 0, Fin 1] [Fin 0, Fin 1] (Plain plain22) None None = Inl UnspecifiedMask
   \<and> init binary64 [Fin 0, Fin 1] [Fin 0, Fin 1] (Plain plain22) (Some mask22) (Some (Fin 0))
       = Inr \<lparr>x = [Fin 0, Fin 1], y = [Fin 0, Fin 1], data = masked22\<rparr>"
proof -
  have h: "length [Fin 0, Fin 1] = snd (ndarray_shape (Plain plain22))"
    "length [Fin 0, Fin 1] = fst (ndarray_shape (Plain plain22))"
    by (simp_all add: plain22_def)
  have "init binary64 [Fin 0, Fin 1] [Fin 0, Fin 1] (Plain plain22) None None
      = Inl UnspecifiedMask"
    using init_mask_specification [OF h, of binary64 None None] by simp
  moreover have "init binary64 [Fin 0, Fin 1] [Fin 0, Fin 1] (Plain plain22) (Some mask22)
      (Some (Fin 0)) = Inr \<lparr>x = [Fin 0, Fin 1], y = [Fin 0, Fin 1], data = masked22\<rparr>"
    using init_mask_specification [OF h, of binary64 "Some mask22" "Some (Fin 0)"]
    by (simp add: masked_equal_def plain22_def masked22_def binary64_sel)
  ultimately show ?thesis using h by simp
qed

text \<open>
  The constructor does not ask for exactly one specification: it also succeeds with a
  mask and a missing-data value together, and with a masked array together with both.
\<close>

theorem init_two_specifications_counterexample:
  "init binary64 [Fin 0, Fin 1] [Fin 0, Fin 1] (Plain plain22) (Some mask22) (Some (Fin 0))
     = Inr \<lparr>x = [Fin 0, Fin 1], y = [Fin 0, Fin 1], data = masked22\<rparr>
   \<and> init binary64 [Fin 0, Fin 1] [Fin 0, Fin 1] (MaskedArray masked22) (Some mask22)
       (Some (Fin 0))
     = Inr \<lparr>x = [Fin 0, Fin 1], y = [Fin 0, Fin 1], data = masked22\<rparr>"
  by (simp add: init_def masked_equal_def plain22_def masked22_def binary64_sel)

text \<open>
  C6. A masked array, a plain array with a boolean mask, and a plain array with a
  sentinel value, all of one shape and encoding the same missing samples and the same
  numbers elsewhere, give three grids on which the evaluation and \<open>is_masked\<close> return the
  same result at every point, value or error. An entry of the third array is missing
  when \<^verbatim>\<open>==\<close> finds it equal to the sentinel.
\<close>

theorem three_mask_specifications_agree:
  assumes "wf_array2 P" and "wf_array2 M" and "wf_array2 S"
    and "shape Q = (length ys, length xs)" and "shape P = shape Q" and "shape M = shape Q"
    and "shape S = shape Q"
    and "\<forall>k < length ys. \<forall>l < length xs.
           cells Q ! k ! l = (if cells M ! k ! l then None else Some (cells P ! k ! l))
         \<and> cells Q ! k ! l = (if feq A (cells S ! k ! l) s then None else Some (cells S ! k ! l))"
  shows "\<exists>ga gb gc.
           init A xs ys (MaskedArray Q) None None = Inr ga
         \<and> init A xs ys (Plain P) (Some M) None = Inr gb
         \<and> init A xs ys (Plain S) None (Some s) = Inr gc
         \<and> (\<forall>p. evaluate A gb p = evaluate A ga p \<and> evaluate A gc p = evaluate A ga p
                \<and> is_masked A gb p = is_masked A ga p \<and> is_masked A gc p = is_masked A ga p)"
proof -
  define ga where "ga = \<lparr>x = xs, y = ys, data = Q\<rparr>"
  define gb where "gb = \<lparr>x = xs, y = ys,
      data = \<lparr>shape = shape P,
              cells = map2 (map2 (\<lambda>u b. if b then None else Some u)) (cells P) (cells M)\<rparr>\<rparr>"
  define gc where "gc = \<lparr>x = xs, y = ys, data = masked_equal A S s\<rparr>"
  have ia: "init A xs ys (MaskedArray Q) None None = Inr ga"
    using assms(4) by (simp add: init_def ga_def)
  have ib: "init A xs ys (Plain P) (Some M) None = Inr gb"
    using assms(4,5,6) by (simp add: init_def gb_def with_mask_same_shape ebind_def)
  have ic: "init A xs ys (Plain S) None (Some s) = Inr gc"
    using assms(4,7) by (simp add: init_def gc_def)
  have enc: "cells Q ! k ! l = (if cells M ! k ! l then None else Some (cells P ! k ! l))"
    "cells Q ! k ! l = (if feq A (cells S ! k ! l) s then None else Some (cells S ! k ! l))"
    if "k < length ys" "l < length xs" for k l
    using assms(8) [rule_format, OF that] by (rule conjunct1, rule conjunct2)
  have b: "getitem2 (data gb) k l = getitem2 (data ga) k l" for k l
  proof (rule getitem2_cong)
    show "shape (data gb) = shape (data ga)" using assms(5) by (simp add: ga_def gb_def)
  next
    fix k l assume "k < fst (shape (data gb))" "l < snd (shape (data gb))"
    then have kl: "k < length ys" "l < length xs" using assms(4,5) by (simp_all add: gb_def)
    then have "k < fst (shape P)" "k < fst (shape M)" using assms(4,5,6) by simp_all
    note rp = wf_array2_row [OF assms(1) this(1)] and rm = wf_array2_row [OF assms(2) this(2)]
    have "l < length (cells P ! k)" "l < length (cells M ! k)"
      using rp(2) rm(2) kl(2) assms(4,5,6) by simp_all
    then have "map2 (map2 (\<lambda>u b. if b then None else Some u)) (cells P) (cells M) ! k ! l
        = (if cells M ! k ! l then None else Some (cells P ! k ! l))"
      by (rule nth_map2_rows [OF rp(1) rm(1)])
    then show "cells (data gb) ! k ! l = cells (data ga) ! k ! l"
      unfolding ga_def gb_def by (simp add: enc(1) [OF kl])
  qed
  have c: "getitem2 (data gc) k l = getitem2 (data ga) k l" for k l
  proof (rule getitem2_cong)
    show "shape (data gc) = shape (data ga)"
      using assms(7) by (simp add: ga_def gc_def masked_equal_def)
  next
    fix k l assume "k < fst (shape (data gc))" "l < snd (shape (data gc))"
    then have kl: "k < length ys" "l < length xs"
      using assms(4,7) by (simp_all add: gc_def masked_equal_def)
    then have "k < fst (shape S)" using assms(4,7) by simp
    note rs = wf_array2_row [OF assms(3) this]
    have "l < length (cells S ! k)" using rs(2) kl(2) assms(4,7) by simp
    with rs(1) enc(2) [OF kl]
    show "cells (data gc) ! k ! l = cells (data ga) ! k ! l"
      by (simp add: ga_def gc_def masked_equal_def)
  qed
  have xy: "x gb = x ga" "y gb = y ga" "x gc = x ga" "y gc = y ga"
    by (simp_all add: ga_def gb_def gc_def)
  have "\<forall>p. evaluate A gb p = evaluate A ga p \<and> evaluate A gc p = evaluate A ga p
      \<and> is_masked A gb p = is_masked A ga p \<and> is_masked A gc p = is_masked A ga p"
    using evaluate_cong [OF xy(1,2) b] evaluate_cong [OF xy(3,4) c] by simp
  with ia ib ic show ?thesis by (intro exI [of _ ga] exI [of _ gb] exI [of _ gc] conjI)
qed

theorem three_mask_specifications_agree_witness:
  "wf_array2 plain22 \<and> wf_array2 mask22 \<and> wf_array2 sentinel22
   \<and> shape masked22 = (length [Fin 0, Fin 1], length [Fin 0, Fin 1])
   \<and> shape plain22 = shape masked22 \<and> shape mask22 = shape masked22
   \<and> shape sentinel22 = shape masked22
   \<and> with_mask plain22 mask22 = Inr masked22 \<and> masked_equal binary64 sentinel22 (Fin 9) = masked22
   \<and> (\<exists>ga gb gc.
           init binary64 [Fin 0, Fin 1] [Fin 0, Fin 1] (MaskedArray masked22) None None = Inr ga
         \<and> init binary64 [Fin 0, Fin 1] [Fin 0, Fin 1] (Plain plain22) (Some mask22) None = Inr gb
         \<and> init binary64 [Fin 0, Fin 1] [Fin 0, Fin 1] (Plain sentinel22) None (Some (Fin 9))
             = Inr gc
         \<and> (\<forall>p. evaluate binary64 gb p = evaluate binary64 ga p
                \<and> evaluate binary64 gc p = evaluate binary64 ga p
                \<and> is_masked binary64 gb p = is_masked binary64 ga p
                \<and> is_masked binary64 gc p = is_masked binary64 ga p))"
proof -
  have w: "wf_array2 plain22" "wf_array2 mask22" "wf_array2 sentinel22"
    by (simp_all add: wf_array2_def plain22_def mask22_def sentinel22_def)
  have s: "shape masked22 = (length [Fin 0, Fin 1], length [Fin 0, Fin 1])"
    "shape plain22 = shape masked22" "shape mask22 = shape masked22"
    "shape sentinel22 = shape masked22"
    by (simp_all add: plain22_def mask22_def sentinel22_def masked22_def)
  have e: "\<forall>k < length [Fin 0, Fin 1]. \<forall>l < length [Fin 0, Fin 1].
           cells masked22 ! k ! l
             = (if cells mask22 ! k ! l then None else Some (cells plain22 ! k ! l))
         \<and> cells masked22 ! k ! l
             = (if feq binary64 (cells sentinel22 ! k ! l) (Fin 9) then None
                else Some (cells sentinel22 ! k ! l))"
    by (simp add: plain22_def mask22_def sentinel22_def masked22_def less_Suc_eq
        eval_nat_numeral binary64_sel)
  have m: "with_mask plain22 mask22 = Inr masked22"
    "masked_equal binary64 sentinel22 (Fin 9) = masked22"
    by (simp_all add: with_mask_def fit_mask_def ebind_def masked_equal_def plain22_def
        mask22_def sentinel22_def masked22_def binary64_sel)
  from three_mask_specifications_agree [OF w s e] w s m show ?thesis by simp
qed

text \<open>
  C7, as the code has it. On a well-formed grid, let the point \<open>(x[j], y[i])\<close> of grid
  indices \<open>(i, j)\<close> resolve to the cell \<open>(i, j)\<close> itself, with four unmasked corners, the
  sample \<open>q00\<close> at \<open>(i, j)\<close> a finite double, and the three differences that the
  interpolation forms finite. Then the evaluation at \<open>(x[j], y[i])\<close> returns exactly the
  stored sample \<open>GridData[i, j]\<close>: both offsets are zero, and the value is \<open>q00\<close> plus three
  zeros. (The two zeros of binary64 are one value here, as they are for \<^verbatim>\<open>==\<close>.)
\<close>

theorem evaluate_exact_at_samples:
  assumes "wf_grid binary64 g"
    and "index_of_point binary64 (x g) (y g) (x g ! j) (y g ! i) = Inr (int i, int j)"
    and "grid_getitem g (int i) (int j) = Inr (Some q00)"
    and "grid_getitem g (int i) (int j + 1) = Inr (Some q01)"
    and "grid_getitem g (int i + 1) (int j) = Inr (Some q10)"
    and "grid_getitem g (int i + 1) (int j + 1) = Inr (Some q11)"
    and "finite_double q00" and "is_finite (dsub q01 q00)" and "is_finite (dsub q10 q00)"
    and "is_finite (dsub (dsub (dadd q00 q11) q10) q01)"
  shows "evaluate binary64 g (x g ! j, y g ! i) = Inr (Some q00)
       \<and> evaluate binary64 g (x g ! j, y g ! i) = grid_getitem g (int i) (int j)"
proof -
  note b = resolved_cell64 [OF assms(1,2)]
  note sh = wf_grid_axes(7) [OF assms(1)]
  note rd = corner_reads [OF sh b]
  note r = index_of_point_Inr [OF assms(2)]
  have c: "corner g (int i) (int j) = Some q00" "corner g (int i) (int j + 1) = Some q01"
    "corner g (int i + 1) (int j) = Some q10" "corner g (int i + 1) (int j + 1) = Some q11"
    using assms(3-6) rd by simp_all
  from r(8) obtain l where
    "dint (ddiv (dsub (x g ! j) (x g ! 0)) (dsub (x g ! 1) (x g ! 0))) = Converted l"
    by (auto simp add: binary64_sel)
  then have ax: "ddiv (dsub (x g ! j) (x g ! j)) (dsub (x g ! 1) (x g ! 0)) = Fin 0"
    by (rule offset_zero)
  from r(7) obtain k where
    "dint (ddiv (dsub (y g ! i) (y g ! 0)) (dsub (y g ! 1) (y g ! 0))) = Converted k"
    by (auto simp add: binary64_sel)
  then have ay: "ddiv (dsub (y g ! i) (y g ! i)) (dsub (y g ! 1) (y g ! 0)) = Fin 0"
    by (rule offset_zero)
  have "evaluate binary64 g (x g ! j, y g ! i) =
      Inr (Some (bilinear binary64 q00 q01 q10 q11
        (ddiv (dsub (x g ! j) (x g ! j)) (dsub (x g ! 1) (x g ! 0)))
        (ddiv (dsub (y g ! i) (y g ! i)) (dsub (y g ! 1) (y g ! 0)))))"
    by (simp add: evaluate_cell [OF sh assms(2) b(1,3)] c binary64_sel)
  also have "\<dots> = Inr (Some q00)"
    unfolding ax ay bilinear_def binary64_sel
    by (simp only: bilinear_at_corner [OF assms(7-10)])
  finally show ?thesis by (simp add: assms(3))
qed

theorem evaluate_exact_at_samples_witness:
  "wf_grid binary64 grid43
   \<and> index_of_point binary64 (x grid43) (y grid43) (x grid43 ! 1) (y grid43 ! 1)
       = Inr (int 1, int 1)
   \<and> grid_getitem grid43 1 1 = Inr (Some (Fin 1)) \<and> grid_getitem grid43 1 2 = Inr (Some (Fin 1))
   \<and> grid_getitem grid43 2 1 = Inr (Some (Fin 1)) \<and> grid_getitem grid43 2 2 = Inr (Some (Fin 1))
   \<and> finite_double (Fin 1) \<and> is_finite (dsub (Fin 1) (Fin 1))
   \<and> is_finite (dsub (dsub (dadd (Fin 1) (Fin 1)) (Fin 1)) (Fin 1))
   \<and> evaluate binary64 grid43 (x grid43 ! 1, y grid43 ! 1) = Inr (Some (Fin 1))"
proof -
  have ix: "index_of_point binary64 (x grid43) (y grid43) (x grid43 ! 1) (y grid43 ! 1)
       = Inr (int 1, int 1)"
    by (simp add: source_defs grid43_def binary64_ops)
  have rd: "grid_getitem grid43 (int 1) (int 1) = Inr (Some (Fin 1))"
    "grid_getitem grid43 (int 1) (int 1 + 1) = Inr (Some (Fin 1))"
    "grid_getitem grid43 (int 1 + 1) (int 1) = Inr (Some (Fin 1))"
    "grid_getitem grid43 (int 1 + 1) (int 1 + 1) = Inr (Some (Fin 1))"
    by (simp_all add: grid_getitem_def getitem2_def grid43_def)
  have f: "finite_double (Fin 1)" "is_finite (dsub (Fin 1) (Fin 1))"
    "is_finite (dsub (Fin 1) (Fin 1))"
    "is_finite (dsub (dsub (dadd (Fin 1) (Fin 1)) (Fin 1)) (Fin 1))"
    by (simp_all add: finite_double_def is_finite_def binary64_ops)
  have "evaluate binary64 grid43 (x grid43 ! 1, y grid43 ! 1) = Inr (Some (Fin 1))"
    using evaluate_exact_at_samples [OF wf_grid43 ix rd f] by simp
  with wf_grid43 ix rd f show ?thesis by simp
qed

text \<open>
  On the last grid line of an axis the evaluation need not return the stored sample. On
  the grid \<open>x = [0, 1]\<close>, \<open>y = [0, 1]\<close> with the values \<open>[[10\<^sup>1\<^sup>6, 1], [0, 0]]\<close>, none of them
  masked, the point \<open>(x[1], y[0])\<close> resolves to the cell \<open>(0, 0)\<close> with the offset
  \<open>ax = 1\<close>; the difference \<open>1 - 10\<^sup>1\<^sup>6\<close> rounds to \<open>-10\<^sup>1\<^sup>6\<close>, and the evaluation returns
  \<open>10\<^sup>1\<^sup>6 + 1 * (-10\<^sup>1\<^sup>6) = 0\<close>, not the stored sample \<open>GridData[0, 1] = 1\<close>. Nor need it
  where a difference of samples overflows: with the values \<open>[[2\<^sup>1\<^sup>0\<^sup>2\<^sup>3, -2\<^sup>1\<^sup>0\<^sup>2\<^sup>3], [0, 0]]\<close> the
  point \<open>(x[0], y[0])\<close> resolves to the cell \<open>(0, 0)\<close> with both offsets zero, the difference
  \<open>-2\<^sup>1\<^sup>0\<^sup>2\<^sup>3 - 2\<^sup>1\<^sup>0\<^sup>2\<^sup>3\<close> is \<open>-inf\<close>, and \<open>0 * -inf\<close> makes the result NaN.
\<close>

theorem last_line_counterexample:
  "wf_grid binary64 grid_big \<and> cell_unmasked grid_big 0 0
   \<and> finite_double (Fin 10000000000000000)
   \<and> index_of_point binary64 (x grid_big) (y grid_big) (x grid_big ! 1) (y grid_big ! 0)
       = Inr (0, 0)
   \<and> grid_getitem grid_big 0 1 = Inr (Some (Fin 1))
   \<and> evaluate binary64 grid_big (x grid_big ! 1, y grid_big ! 0) = Inr (Some (Fin 0))
   \<and> wf_grid binary64 grid_wide \<and> cell_unmasked grid_wide 0 0
   \<and> finite_double (Fin (pow2 1023)) \<and> finite_double (Fin (- pow2 1023))
   \<and> index_of_point binary64 (x grid_wide) (y grid_wide) (x grid_wide ! 0) (y grid_wide ! 0)
       = Inr (0, 0)
   \<and> grid_getitem grid_wide 0 0 = Inr (Some (Fin (pow2 1023)))
   \<and> evaluate binary64 grid_wide (x grid_wide ! 0, y grid_wide ! 0) = Inr (Some NaN)"
proof -
  have "cell_unmasked grid_big 0 0"
    by (simp add: cell_unmasked_def unmasked_def grid_getitem_def getitem2_def grid_big_def)
  moreover have "index_of_point binary64 (x grid_big) (y grid_big) (x grid_big ! 1)
      (y grid_big ! 0) = Inr (0, 0)"
    by (simp add: source_defs grid_big_def binary64_ops)
  moreover have "grid_getitem grid_big 0 1 = Inr (Some (Fin 1))"
    by (simp add: grid_getitem_def getitem2_def grid_big_def)
  moreover have "evaluate binary64 grid_big (x grid_big ! 1, y grid_big ! 0)
      = Inr (Some (Fin 0))"
    by (simp add: source_defs grid_big_def binary64_ops rnd_1e16 rnd_neg_1e16 rnd_below_1e16
        rnd_above_neg_1e16)
  moreover have "finite_double (Fin 10000000000000000)"
    by (simp add: finite_double_def rnd_1e16)
  moreover have "wf_grid binary64 grid_wide"
    by (simp add: wf_grid_def wf_array2_def grid_wide_def binary64_sel)
  moreover have "cell_unmasked grid_wide 0 0"
    by (simp add: cell_unmasked_def unmasked_def grid_getitem_def getitem2_def grid_wide_def)
  moreover have "finite_double (Fin (pow2 1023))" "finite_double (Fin (- pow2 1023))"
    by (simp_all add: finite_double_def rnd_2_1023)
  moreover have "index_of_point binary64 (x grid_wide) (y grid_wide) (x grid_wide ! 0)
      (y grid_wide ! 0) = Inr (0, 0)"
    by (simp add: source_defs grid_wide_def binary64_ops)
  moreover have "grid_getitem grid_wide 0 0 = Inr (Some (Fin (pow2 1023)))"
    by (simp add: grid_getitem_def getitem2_def grid_wide_def)
  moreover note evaluate_grid_wide
  ultimately show ?thesis using wf_grid_big by simp
qed

text \<open>
  C8, as the code has it. On a well-formed grid, take a requested rectangle whose
  clamped corners satisfy \<open>Xmin \<le> Xmax\<close> and \<open>Ymin \<le> Ymax\<close>, and let \<open>subset\<close> return a
  grid. Its axes are the slices \<open>x[jmin:jmax+2]\<close> and \<open>y[imin:imax+2]\<close> at the cells
  \<open>(imin, jmin)\<close> and \<open>(imax, jmax)\<close> of the clamped corners, so its \<open>x\<close> range is
  \<open>[x[jmin], x[jmax+1]]\<close> and its \<open>y\<close> range \<open>[y[imin], y[imax+1]]\<close>, inside the domain of
  the grid. At every point that the returned grid resolves to a cell \<open>(i, j)\<close> and the
  grid to the cell \<open>(imin + i, jmin + j)\<close>, when the first step of each axis is the same
  double in both, the evaluation and \<open>is_masked\<close> return the same result on both, value or
  error. On the grid \<open>x = [0, 1, 2, 3]\<close>, \<open>y = [0, 1, 2]\<close> with all values one,
  \<open>subset(0.5, 0.5, 1.5, 1.5)\<close> returns the grid with \<open>x = [0, 1, 2]\<close> and \<open>y = [0, 1, 2]\<close>.
\<close>

theorem subset_contains_and_agrees:
  assumes "wf_grid binary64 g"
    and "dle (pymax binary64 xmin (x g ! 0)) (pymin binary64 xmax (last (x g)))"
    and "dle (pymax binary64 ymin (y g ! 0)) (pymin binary64 ymax (last (y g)))"
    and "subset binary64 g xmin ymin xmax ymax = Inr g'"
  shows "(\<exists>imin jmin imax jmax.
            index_of_point binary64 (x g) (y g)
                (pymax binary64 xmin (x g ! 0)) (pymax binary64 ymin (y g ! 0)) = Inr (imin, jmin)
          \<and> index_of_point binary64 (x g) (y g)
                (pymin binary64 xmax (last (x g))) (pymin binary64 ymax (last (y g)))
              = Inr (imax, jmax)
          \<and> x g' = slice (x g) jmin (jmax + 2) \<and> y g' = slice (y g) imin (imax + 2)
          \<and> x g' ! 0 = x g ! nat jmin \<and> last (x g') = x g ! nat (jmax + 1)
          \<and> y g' ! 0 = y g ! nat imin \<and> last (y g') = y g ! nat (imax + 1)
          \<and> dle (x g ! 0) (x g' ! 0) \<and> dle (last (x g')) (last (x g))
          \<and> dle (y g ! 0) (y g' ! 0) \<and> dle (last (y g')) (last (y g))
          \<and> (\<forall>X Y i j.
                index_of_point binary64 (x g') (y g') X Y = Inr (i, j)
              \<and> index_of_point binary64 (x g) (y g) X Y = Inr (imin + i, jmin + j)
              \<and> dsub (x g' ! 1) (x g' ! 0) = dsub (x g ! 1) (x g ! 0)
              \<and> dsub (y g' ! 1) (y g' ! 0) = dsub (y g ! 1) (y g ! 0)
              \<longrightarrow> evaluate binary64 g' (X, Y) = evaluate binary64 g (X, Y)
                \<and> is_masked binary64 g' (X, Y) = is_masked binary64 g (X, Y)))
       \<and> subset binary64 ones43 (Fin (1 / 2)) (Fin (1 / 2)) (Fin (3 / 2)) (Fin (3 / 2))
           = Inr \<lparr>x = [Fin 0, Fin 1, Fin 2], y = [Fin 0, Fin 1, Fin 2],
                  data = \<lparr>shape = (3, 3),
                          cells = [[Some (Fin 1), Some (Fin 1), Some (Fin 1)],
                                   [Some (Fin 1), Some (Fin 1), Some (Fin 1)],
                                   [Some (Fin 1), Some (Fin 1), Some (Fin 1)]]\<rparr>\<rparr>"
proof -
  note ax = wf_grid_axes [OF assms(1)]
  from assms(1) have so: "sorted_wrt dlt (x g)" "sorted_wrt dlt (y g)"
    by (simp_all add: wf_grid_def binary64_sel)
  from subset_structure [OF assms] obtain imin jmin imax jmax where
    lo: "index_of_point binary64 (x g) (y g)
       (pymax binary64 xmin (x g ! 0)) (pymax binary64 ymin (y g ! 0)) = Inr (imin, jmin)"
    and hi: "index_of_point binary64 (x g) (y g)
       (pymin binary64 xmax (last (x g))) (pymin binary64 ymax (last (y g))) = Inr (imax, jmax)"
    and g': "g' = \<lparr>x = slice (x g) jmin (jmax + 2), y = slice (y g) imin (imax + 2),
           data = slice2 (data g) imin (imax + 2) jmin (jmax + 2)\<rparr>"
    and b: "0 \<le> imin" "imin \<le> imax" "imax + 2 \<le> int (length (y g))"
      "0 \<le> jmin" "jmin \<le> jmax" "jmax + 2 \<le> int (length (x g))"
    by blast
  have sl: "x g' = slice (x g) jmin (jmax + 2)" "y g' = slice (y g) imin (imax + 2)"
    by (simp_all add: g')
  note ex = slice_ends [OF b(4,5,6)] and ey = slice_ends [OF b(1,2,3)]
  have en: "x g' ! 0 = x g ! nat jmin" "last (x g') = x g ! nat (jmax + 1)"
    "y g' ! 0 = y g ! nat imin" "last (y g') = y g ! nat (imax + 1)"
    by (simp_all only: sl ex ey)
  from ax(1,2) have ne: "x g \<noteq> []" "y g \<noteq> []" by auto
  have lx: "last (x g) = x g ! (length (x g) - 1)" and ly: "last (y g) = y g ! (length (y g) - 1)"
    using ne by (simp_all add: last_conv_nth)
  have dom: "dle (x g ! 0) (x g' ! 0)" "dle (last (x g')) (last (x g))"
    "dle (y g ! 0) (y g' ! 0)" "dle (last (y g')) (last (y g))"
    unfolding en lx ly
    using b by (auto intro!: sorted_nth_dle [OF so(1) ax(1)] sorted_nth_dle [OF so(2) ax(2)])
  have agree: "\<forall>X Y i j.
                index_of_point binary64 (x g') (y g') X Y = Inr (i, j)
              \<and> index_of_point binary64 (x g) (y g) X Y = Inr (imin + i, jmin + j)
              \<and> dsub (x g' ! 1) (x g' ! 0) = dsub (x g ! 1) (x g ! 0)
              \<and> dsub (y g' ! 1) (y g' ! 0) = dsub (y g ! 1) (y g ! 0)
              \<longrightarrow> evaluate binary64 g' (X, Y) = evaluate binary64 g (X, Y)
                \<and> is_masked binary64 g' (X, Y) = is_masked binary64 g (X, Y)"
    using sub_grid_agrees [OF assms(1) b g'] by blast
  have general: "\<exists>imin jmin imax jmax.
            index_of_point binary64 (x g) (y g)
                (pymax binary64 xmin (x g ! 0)) (pymax binary64 ymin (y g ! 0)) = Inr (imin, jmin)
          \<and> index_of_point binary64 (x g) (y g)
                (pymin binary64 xmax (last (x g))) (pymin binary64 ymax (last (y g)))
              = Inr (imax, jmax)
          \<and> x g' = slice (x g) jmin (jmax + 2) \<and> y g' = slice (y g) imin (imax + 2)
          \<and> x g' ! 0 = x g ! nat jmin \<and> last (x g') = x g ! nat (jmax + 1)
          \<and> y g' ! 0 = y g ! nat imin \<and> last (y g') = y g ! nat (imax + 1)
          \<and> dle (x g ! 0) (x g' ! 0) \<and> dle (last (x g')) (last (x g))
          \<and> dle (y g ! 0) (y g' ! 0) \<and> dle (last (y g')) (last (y g))
          \<and> (\<forall>X Y i j.
                index_of_point binary64 (x g') (y g') X Y = Inr (i, j)
              \<and> index_of_point binary64 (x g) (y g) X Y = Inr (imin + i, jmin + j)
              \<and> dsub (x g' ! 1) (x g' ! 0) = dsub (x g ! 1) (x g ! 0)
              \<and> dsub (y g' ! 1) (y g' ! 0) = dsub (y g ! 1) (y g ! 0)
              \<longrightarrow> evaluate binary64 g' (X, Y) = evaluate binary64 g (X, Y)
                \<and> is_masked binary64 g' (X, Y) = is_masked binary64 g (X, Y))"
    using lo hi sl en dom agree
    by (intro exI [of _ imin] exI [of _ jmin] exI [of _ imax] exI [of _ jmax] conjI) assumption+
  from general subset_ones43 [unfolded ones33_def] show ?thesis by (rule conjI)
qed

theorem subset_contains_and_agrees_witness:
  "wf_grid binary64 grid43
   \<and> dle (pymax binary64 (Fin (1 / 2)) (x grid43 ! 0)) (pymin binary64 (Fin (3 / 2)) (last (x grid43)))
   \<and> dle (pymax binary64 (Fin (1 / 2)) (y grid43 ! 0)) (pymin binary64 (Fin (3 / 2)) (last (y grid43)))
   \<and> subset binary64 grid43 (Fin (1 / 2)) (Fin (1 / 2)) (Fin (3 / 2)) (Fin (3 / 2)) = Inr ones33
   \<and> index_of_point binary64 (x ones33) (y ones33) (Fin (3 / 2)) (Fin 2) = Inr (1, 1)
   \<and> index_of_point binary64 (x grid43) (y grid43) (Fin (3 / 2)) (Fin 2) = Inr (0 + 1, 0 + 1)
   \<and> dsub (x ones33 ! 1) (x ones33 ! 0) = dsub (x grid43 ! 1) (x grid43 ! 0)
   \<and> dsub (y ones33 ! 1) (y ones33 ! 0) = dsub (y grid43 ! 1) (y grid43 ! 0)
   \<and> evaluate binary64 ones33 (Fin (3 / 2), Fin 2) = evaluate binary64 grid43 (Fin (3 / 2), Fin 2)
   \<and> dle (last (x ones33)) (last (x grid43))"
proof -
  have h: "dle (pymax binary64 (Fin (1 / 2)) (x grid43 ! 0))
      (pymin binary64 (Fin (3 / 2)) (last (x grid43)))"
    "dle (pymax binary64 (Fin (1 / 2)) (y grid43 ! 0))
      (pymin binary64 (Fin (3 / 2)) (last (y grid43)))"
    by (simp_all add: pymax_def pymin_def grid43_def binary64_sel)
  have lo: "index_of_point binary64 (x grid43) (y grid43)
      (pymax binary64 (Fin (1 / 2)) (x grid43 ! 0)) (pymax binary64 (Fin (1 / 2)) (y grid43 ! 0))
      = Inr (0, 0)"
    by (simp add: pymax_def source_defs grid43_def binary64_ops)
  have i33: "index_of_point binary64 (x ones33) (y ones33) (Fin (3 / 2)) (Fin 2) = Inr (1, 1)"
    by (simp add: source_defs ones33_def binary64_ops)
  have i43: "index_of_point binary64 (x grid43) (y grid43) (Fin (3 / 2)) (Fin 2)
      = Inr (0 + 1, 0 + 1)"
    by (simp add: source_defs grid43_def binary64_ops)
  have st: "dsub (x ones33 ! 1) (x ones33 ! 0) = dsub (x grid43 ! 1) (x grid43 ! 0)"
    "dsub (y ones33 ! 1) (y ones33 ! 0) = dsub (y grid43 ! 1) (y grid43 ! 0)"
    by (simp_all add: ones33_def grid43_def)
  from subset_contains_and_agrees [OF wf_grid43 h subset_grid43] obtain imin jmin imax jmax where
    lo': "index_of_point binary64 (x grid43) (y grid43)
      (pymax binary64 (Fin (1 / 2)) (x grid43 ! 0)) (pymax binary64 (Fin (1 / 2)) (y grid43 ! 0))
      = Inr (imin, jmin)"
    and d: "dle (last (x ones33)) (last (x grid43))"
    and a: "\<forall>X Y i j.
                index_of_point binary64 (x ones33) (y ones33) X Y = Inr (i, j)
              \<and> index_of_point binary64 (x grid43) (y grid43) X Y = Inr (imin + i, jmin + j)
              \<and> dsub (x ones33 ! 1) (x ones33 ! 0) = dsub (x grid43 ! 1) (x grid43 ! 0)
              \<and> dsub (y ones33 ! 1) (y ones33 ! 0) = dsub (y grid43 ! 1) (y grid43 ! 0)
              \<longrightarrow> evaluate binary64 ones33 (X, Y) = evaluate binary64 grid43 (X, Y)
                \<and> is_masked binary64 ones33 (X, Y) = is_masked binary64 grid43 (X, Y)"
    by blast
  from lo lo' have z: "imin = 0" "jmin = 0" by simp_all
  from a [rule_format, of "Fin (3 / 2)" "Fin 2" 1 1] i33 i43 st
  have "evaluate binary64 ones33 (Fin (3 / 2), Fin 2) = evaluate binary64 grid43 (Fin (3 / 2), Fin 2)"
    unfolding z by simp
  with wf_grid43 h subset_grid43 i33 i43 st d show ?thesis by simp
qed

text \<open>
  The two grids do not return the same result at every point in the domain of both. On
  the grid \<open>x = [0, 1, 2, 3]\<close>, \<open>y = [0, 1, 2]\<close> with the sample at row 0, column 3 masked,
  \<open>subset(0.5, 0.5, 1.5, 1.5)\<close> keeps the first three columns. The point \<open>(2, 0.5)\<close> is on
  the last grid line of the subset: the subset resolves it to its last cell, columns 1 and
  2, and returns 1; the grid resolves it to the cell of columns 2 and 3 and fails on the
  masked sample. Nor does the returned grid always contain the clamped rectangle: on the
  grid \<open>x = [-1, 0, 1, 2]\<close>, \<open>y = [0, 1]\<close> and for \<open>xmin = 1 - 2\<^sup>-\<^sup>5\<^sup>3\<close>, the double next below
  1, the difference \<open>xmin - x[0]\<close> rounds to 2, the lower corner resolves to the column 2,
  and \<open>subset(xmin, 0, 1.5, 1)\<close> returns a grid with \<open>x = [1, 2]\<close>, which starts above \<open>xmin\<close>.
\<close>

theorem subset_boundary_counterexample:
  "subset binary64 grid43 (Fin (1 / 2)) (Fin (1 / 2)) (Fin (3 / 2)) (Fin (3 / 2)) = Inr ones33
   \<and> dle (x grid43 ! 0) (Fin 2) \<and> dle (Fin 2) (last (x grid43))
   \<and> dle (y grid43 ! 0) (Fin (1 / 2)) \<and> dle (Fin (1 / 2)) (last (y grid43))
   \<and> dle (x ones33 ! 0) (Fin 2) \<and> dle (Fin 2) (last (x ones33))
   \<and> dle (y ones33 ! 0) (Fin (1 / 2)) \<and> dle (Fin (1 / 2)) (last (y ones33))
   \<and> evaluate binary64 ones33 (Fin 2, Fin (1 / 2)) = Inr (Some (Fin 1))
   \<and> evaluate binary64 grid43 (Fin 2, Fin (1 / 2)) = Inl InsufficientData
   \<and> finite_double (Fin (1 - pow2 (- 53)))
   \<and> pymax binary64 (Fin (1 - pow2 (- 53))) (x grid_neg ! 0) = Fin (1 - pow2 (- 53))
   \<and> pymin binary64 (Fin (3 / 2)) (last (x grid_neg)) = Fin (3 / 2)
   \<and> dle (Fin (1 - pow2 (- 53))) (Fin (3 / 2))
   \<and> subset binary64 grid_neg (Fin (1 - pow2 (- 53))) (Fin 0) (Fin (3 / 2)) (Fin 1)
       = Inr \<lparr>x = [Fin 1, Fin 2], y = [Fin 0, Fin 1],
              data = \<lparr>shape = (2, 2),
                      cells = [[Some (Fin 1), Some (Fin 1)], [Some (Fin 1), Some (Fin 1)]]\<rparr>\<rparr>
   \<and> dlt (Fin (1 - pow2 (- 53))) (Fin 1)"
proof -
  have d: "dle (x grid43 ! 0) (Fin 2) \<and> dle (Fin 2) (last (x grid43))
      \<and> dle (y grid43 ! 0) (Fin (1 / 2)) \<and> dle (Fin (1 / 2)) (last (y grid43))"
    "dle (x ones33 ! 0) (Fin 2) \<and> dle (Fin 2) (last (x ones33))
      \<and> dle (y ones33 ! 0) (Fin (1 / 2)) \<and> dle (Fin (1 / 2)) (last (y ones33))"
    by (simp_all add: grid43_def ones33_def)
  have e33: "evaluate binary64 ones33 (Fin 2, Fin (1 / 2)) = Inr (Some (Fin 1))"
    by (simp add: source_defs ones33_def binary64_ops)
  have e43: "evaluate binary64 grid43 (Fin 2, Fin (1 / 2)) = Inl InsufficientData"
    by (simp add: source_defs grid43_def binary64_ops)
  have f: "finite_double (Fin (1 - pow2 (- 53)))"
    by (simp add: finite_double_def rnd_below_1)
  have o: "dle (Fin (1 - pow2 (- 53))) (Fin (3 / 2))" "dlt (Fin (1 - pow2 (- 53))) (Fin 1)"
    using below_1_bounds by simp_all
  from subset_grid43 d e33 e43 f clamp_grid_neg(1,3) o subset_grid_neg show ?thesis by simp
qed

text \<open>
  C9. For strictly increasing axes of two coordinates or more, the cell indices \<open>(i, j)\<close>
  that the index computation returns satisfy \<open>0 \<le> i \<le> ny - 2\<close> and \<open>0 \<le> j \<le> nx - 2\<close>, hence
  \<open>i + 1 < ny\<close> and \<open>j + 1 < nx\<close>, and the four corner reads of any array of shape
  \<open>(ny, nx)\<close> are in bounds: each returns the entry at its place, and \<open>_is_missing\<close>
  returns.
\<close>

theorem index_of_point_in_bounds:
  assumes "sorted_wrt dlt xs" and "sorted_wrt dlt ys" and "2 \<le> length xs" and "2 \<le> length ys"
    and "index_of_point binary64 xs ys X Y = Inr (i, j)"
  shows "0 \<le> i \<and> i \<le> int (length ys) - 2 \<and> 0 \<le> j \<and> j \<le> int (length xs) - 2
       \<and> i + 1 < int (length ys) \<and> j + 1 < int (length xs)
       \<and> (\<forall>q :: dbl option array2. shape q = (length ys, length xs) \<longrightarrow>
             getitem2 q i j = Inr (cells q ! nat i ! nat j)
           \<and> getitem2 q i (j + 1) = Inr (cells q ! nat i ! nat (j + 1))
           \<and> getitem2 q (i + 1) j = Inr (cells q ! nat (i + 1) ! nat j)
           \<and> getitem2 q (i + 1) (j + 1) = Inr (cells q ! nat (i + 1) ! nat (j + 1))
           \<and> (\<exists>b. is_missing q i j = Inr b))"
proof -
  have sx: "flt binary64 (xs ! 0) (xs ! 1)" and sy: "flt binary64 (ys ! 0) (ys ! 1)"
    using sorted_wrt_first_two [OF assms(1,3)] sorted_wrt_first_two [OF assms(2,4)]
    by (simp_all add: binary64_sel)
  note b = index_of_point_bounds [OF index_nonneg_binary64 sx sy assms(5)]
  have reads: "getitem2 q i j = Inr (cells q ! nat i ! nat j)
           \<and> getitem2 q i (j + 1) = Inr (cells q ! nat i ! nat (j + 1))
           \<and> getitem2 q (i + 1) j = Inr (cells q ! nat (i + 1) ! nat j)
           \<and> getitem2 q (i + 1) (j + 1) = Inr (cells q ! nat (i + 1) ! nat (j + 1))
           \<and> (\<exists>b. is_missing q i j = Inr b)"
    if sh: "shape q = (length ys, length xs)" for q :: "dbl option array2"
    using b by (simp add: getitem2_in_range [OF sh] is_missing_in_range [OF sh b])
  from b have "0 \<le> i \<and> i \<le> int (length ys) - 2 \<and> 0 \<le> j \<and> j \<le> int (length xs) - 2
       \<and> i + 1 < int (length ys) \<and> j + 1 < int (length xs)" by simp
  with reads show ?thesis by simp
qed

theorem index_of_point_in_bounds_witness:
  "sorted_wrt dlt (x grid43) \<and> sorted_wrt dlt (y grid43)
   \<and> 2 \<le> length (x grid43) \<and> 2 \<le> length (y grid43)
   \<and> index_of_point binary64 (x grid43) (y grid43) (Fin 3) (Fin 2) = Inr (1, 2)
   \<and> shape (data grid43) = (length (y grid43), length (x grid43))
   \<and> getitem2 (data grid43) (1 + 1) (2 + 1) = Inr (Some (Fin 1))
   \<and> (\<exists>b. is_missing (data grid43) 1 2 = Inr b)"
proof -
  have s: "sorted_wrt dlt (x grid43)" "sorted_wrt dlt (y grid43)"
    and l: "2 \<le> length (x grid43)" "2 \<le> length (y grid43)"
    and sh: "shape (data grid43) = (length (y grid43), length (x grid43))"
    by (simp_all add: grid43_def)
  have ix: "index_of_point binary64 (x grid43) (y grid43) (Fin 3) (Fin 2) = Inr (1, 2)"
    by (simp add: source_defs grid43_def binary64_ops)
  from index_of_point_in_bounds [OF s l ix] sh
  have "getitem2 (data grid43) (1 + 1) (2 + 1)
      = Inr (cells (data grid43) ! nat (1 + 1) ! nat (2 + 1))"
    and m: "\<exists>b. is_missing (data grid43) 1 2 = Inr b"
    by blast+
  then have "getitem2 (data grid43) (1 + 1) (2 + 1) = Inr (Some (Fin 1))"
    by (simp add: grid43_def eval_nat_numeral)
  with s l ix sh m show ?thesis by simp
qed

text \<open>
  C10, as the code has it. On a well-formed grid with strictly increasing axes,
  \<open>subset\<close> never fails with the shape-mismatch or the missing-mask-specification error.
  When the clamped corners satisfy \<open>Xmin \<le> Xmax\<close> and \<open>Ymin \<le> Ymax\<close> and \<open>subset\<close> returns
  a grid, that grid is well-formed: its axes are the slices \<open>x[jmin:jmax+2]\<close> and
  \<open>y[imin:imax+2]\<close>, of length at least two and matching the shape of the sliced data;
  it is what the constructor makes of the sliced masked array without a mask or a
  missing-data value; and every sample of it, masked or not, is the sample of the grid at
  the shifted indices.
\<close>

theorem subset_well_formed:
  assumes "wf_grid binary64 g"
    and "dle (pymax binary64 xmin (x g ! 0)) (pymin binary64 xmax (last (x g)))"
    and "dle (pymax binary64 ymin (y g ! 0)) (pymin binary64 ymax (last (y g)))"
  shows "(\<forall>e. subset binary64 g xmin ymin xmax ymax = Inl e \<longrightarrow>
            e \<noteq> ShapeMismatch \<and> e \<noteq> UnspecifiedMask)
       \<and> (\<forall>g'. subset binary64 g xmin ymin xmax ymax = Inr g' \<longrightarrow>
            wf_grid binary64 g'
          \<and> (\<exists>imin jmin imax jmax.
                index_of_point binary64 (x g) (y g)
                    (pymax binary64 xmin (x g ! 0)) (pymax binary64 ymin (y g ! 0))
                  = Inr (imin, jmin)
              \<and> index_of_point binary64 (x g) (y g)
                    (pymin binary64 xmax (last (x g))) (pymin binary64 ymax (last (y g)))
                  = Inr (imax, jmax)
              \<and> x g' = slice (x g) jmin (jmax + 2) \<and> y g' = slice (y g) imin (imax + 2)
              \<and> data g' = slice2 (data g) imin (imax + 2) jmin (jmax + 2)
              \<and> 2 \<le> length (x g') \<and> 2 \<le> length (y g')
              \<and> shape (data g') = (length (y g'), length (x g'))
              \<and> init binary64 (x g') (y g') (MaskedArray (data g')) None None = Inr g'
              \<and> (\<forall>k < length (y g'). \<forall>l < length (x g').
                    grid_getitem g' (int k) (int l)
                      = grid_getitem g (imin + int k) (jmin + int l))))"
proof -
  note ax = wf_grid_axes [OF assms(1)]
  have errors: "\<forall>e. subset binary64 g xmin ymin xmax ymax = Inl e \<longrightarrow>
      e \<noteq> ShapeMismatch \<and> e \<noteq> UnspecifiedMask"
    using subset_error_kinds [OF ax(1,2,7), of binary64 xmin ymin xmax ymax] by auto
  have returned: "wf_grid binary64 g'
          \<and> (\<exists>imin jmin imax jmax.
                index_of_point binary64 (x g) (y g)
                    (pymax binary64 xmin (x g ! 0)) (pymax binary64 ymin (y g ! 0))
                  = Inr (imin, jmin)
              \<and> index_of_point binary64 (x g) (y g)
                    (pymin binary64 xmax (last (x g))) (pymin binary64 ymax (last (y g)))
                  = Inr (imax, jmax)
              \<and> x g' = slice (x g) jmin (jmax + 2) \<and> y g' = slice (y g) imin (imax + 2)
              \<and> data g' = slice2 (data g) imin (imax + 2) jmin (jmax + 2)
              \<and> 2 \<le> length (x g') \<and> 2 \<le> length (y g')
              \<and> shape (data g') = (length (y g'), length (x g'))
              \<and> init binary64 (x g') (y g') (MaskedArray (data g')) None None = Inr g'
              \<and> (\<forall>k < length (y g'). \<forall>l < length (x g').
                    grid_getitem g' (int k) (int l)
                      = grid_getitem g (imin + int k) (jmin + int l)))"
    if s: "subset binary64 g xmin ymin xmax ymax = Inr g'" for g'
  proof -
    from subset_structure [OF assms s] obtain imin jmin imax jmax where
      lo: "index_of_point binary64 (x g) (y g)
         (pymax binary64 xmin (x g ! 0)) (pymax binary64 ymin (y g ! 0)) = Inr (imin, jmin)"
      and hi: "index_of_point binary64 (x g) (y g)
         (pymin binary64 xmax (last (x g))) (pymin binary64 ymax (last (y g))) = Inr (imax, jmax)"
      and g': "g' = \<lparr>x = slice (x g) jmin (jmax + 2), y = slice (y g) imin (imax + 2),
             data = slice2 (data g) imin (imax + 2) jmin (jmax + 2)\<rparr>"
      and b: "0 \<le> imin" "imin \<le> imax" "imax + 2 \<le> int (length (y g))"
        "0 \<le> jmin" "jmin \<le> jmax" "jmax + 2 \<le> int (length (x g))"
      by blast
    have wf: "wf_grid binary64 g'" unfolding g' by (rule sub_grid_wf [OF assms(1) b])
    note ax' = wf_grid_axes [OF wf]
    have ly: "imin \<le> imax + 2" and lx: "jmin \<le> jmax + 2" using b(2,5) by simp_all
    have len: "length (y g') = nat (imax + 2 - imin)" "length (x g') = nat (jmax + 2 - jmin)"
      by (simp_all add: g' slice_in_range(2) [OF b(1) ly b(3)] slice_in_range(2) [OF b(4) lx b(6)])
    have rd: "\<forall>k < length (y g'). \<forall>l < length (x g').
        grid_getitem g' (int k) (int l) = grid_getitem g (imin + int k) (jmin + int l)"
    proof (intro allI impI)
      fix k l assume "k < length (y g')" "l < length (x g')"
      then have "0 \<le> int k" "int k < imax + 2 - imin" "0 \<le> int l" "int l < jmax + 2 - jmin"
        using len by simp_all
      from sub_grid_getitem [OF assms(1) b this]
      show "grid_getitem g' (int k) (int l) = grid_getitem g (imin + int k) (jmin + int l)"
        by (simp add: grid_getitem_def g')
    qed
    have sl: "x g' = slice (x g) jmin (jmax + 2)" "y g' = slice (y g) imin (imax + 2)"
      "data g' = slice2 (data g) imin (imax + 2) jmin (jmax + 2)"
      by (simp_all add: g')
    have "init binary64 (x g') (y g') (MaskedArray (data g')) None None
        = Inr \<lparr>x = x g', y = y g', data = data g'\<rparr>"
      by (rule init_MaskedArray [OF ax'(7)])
    then have ini: "init binary64 (x g') (y g') (MaskedArray (data g')) None None = Inr g'"
      by simp
    have "\<exists>imin jmin imax jmax.
                index_of_point binary64 (x g) (y g)
                    (pymax binary64 xmin (x g ! 0)) (pymax binary64 ymin (y g ! 0))
                  = Inr (imin, jmin)
              \<and> index_of_point binary64 (x g) (y g)
                    (pymin binary64 xmax (last (x g))) (pymin binary64 ymax (last (y g)))
                  = Inr (imax, jmax)
              \<and> x g' = slice (x g) jmin (jmax + 2) \<and> y g' = slice (y g) imin (imax + 2)
              \<and> data g' = slice2 (data g) imin (imax + 2) jmin (jmax + 2)
              \<and> 2 \<le> length (x g') \<and> 2 \<le> length (y g')
              \<and> shape (data g') = (length (y g'), length (x g'))
              \<and> init binary64 (x g') (y g') (MaskedArray (data g')) None None = Inr g'
              \<and> (\<forall>k < length (y g'). \<forall>l < length (x g').
                    grid_getitem g' (int k) (int l)
                      = grid_getitem g (imin + int k) (jmin + int l))"
      using lo hi sl ax'(1,2,7) ini rd
      by (intro exI [of _ imin] exI [of _ jmin] exI [of _ imax] exI [of _ jmax] conjI)
        assumption+
    with wf show ?thesis by (rule conjI)
  qed
  from errors returned show ?thesis by blast
qed

theorem subset_well_formed_witness:
  "wf_grid binary64 grid43
   \<and> dle (pymax binary64 (Fin (1 / 2)) (x grid43 ! 0)) (pymin binary64 (Fin (3 / 2)) (last (x grid43)))
   \<and> dle (pymax binary64 (Fin (1 / 2)) (y grid43 ! 0)) (pymin binary64 (Fin (3 / 2)) (last (y grid43)))
   \<and> subset binary64 grid43 (Fin (1 / 2)) (Fin (1 / 2)) (Fin (3 / 2)) (Fin (3 / 2)) = Inr ones33
   \<and> wf_grid binary64 ones33"
proof -
  have h: "dle (pymax binary64 (Fin (1 / 2)) (x grid43 ! 0))
      (pymin binary64 (Fin (3 / 2)) (last (x grid43)))"
    "dle (pymax binary64 (Fin (1 / 2)) (y grid43 ! 0))
      (pymin binary64 (Fin (3 / 2)) (last (y grid43)))"
    by (simp_all add: pymax_def pymin_def grid43_def binary64_sel)
  from subset_well_formed [OF wf_grid43 h] subset_grid43 have "wf_grid binary64 ones33" by blast
  with wf_grid43 h subset_grid43 show ?thesis by simp
qed

text \<open>
  Without strictly increasing axes the returned grid need not be well-formed. The grid
  \<open>x = [0, -1, 5]\<close>, \<open>y = [0, 1]\<close> has axes of length at least two and data of shape
  \<open>(2, 3)\<close>. For the rectangle \<open>(2.5, 0, 2.5, 1)\<close> the clamped corners \<open>(2.5, 0)\<close> and
  \<open>(2.5, 1)\<close> are in the domain, with \<open>2.5 \<le> 2.5\<close> and \<open>0 \<le> 1\<close>. Both resolve to the column
  \<open>int(2.5 / -1) = -2\<close>, the slice \<open>x[-2:0]\<close> is empty, and \<open>subset\<close> returns a grid whose
  \<open>x\<close> axis has no coordinate.
\<close>

theorem subset_empty_axis_counterexample:
  "2 \<le> length (x grid_back) \<and> 2 \<le> length (y grid_back)
   \<and> shape (data grid_back) = (length (y grid_back), length (x grid_back))
   \<and> pymax binary64 (Fin (5 / 2)) (x grid_back ! 0) = Fin (5 / 2)
   \<and> pymax binary64 (Fin 0) (y grid_back ! 0) = Fin 0
   \<and> pymin binary64 (Fin (5 / 2)) (last (x grid_back)) = Fin (5 / 2)
   \<and> pymin binary64 (Fin 1) (last (y grid_back)) = Fin 1
   \<and> index_of_point binary64 (x grid_back) (y grid_back) (Fin (5 / 2)) (Fin 0) = Inr (0, - 2)
   \<and> index_of_point binary64 (x grid_back) (y grid_back) (Fin (5 / 2)) (Fin 1) = Inr (0, - 2)
   \<and> dle (Fin (5 / 2)) (Fin (5 / 2)) \<and> dle (Fin 0) (Fin 1)
   \<and> subset binary64 grid_back (Fin (5 / 2)) (Fin 0) (Fin (5 / 2)) (Fin 1)
       = Inr \<lparr>x = [], y = [Fin 0, Fin 1], data = \<lparr>shape = (2, 0), cells = [[], []]\<rparr>\<rparr>"
proof -
  have ne: "x grid_back \<noteq> []" "y grid_back \<noteq> []"
    and sh: "shape (data grid_back) = (length (y grid_back), length (x grid_back))"
    and l: "2 \<le> length (x grid_back)" "2 \<le> length (y grid_back)"
    by (simp_all add: grid_back_def)
  have "subset binary64 grid_back (Fin (5 / 2)) (Fin 0) (Fin (5 / 2)) (Fin 1)
      = Inr \<lparr>x = slice (x grid_back) (- 2) (- 2 + 2), y = slice (y grid_back) 0 (0 + 2),
             data = slice2 (data grid_back) 0 (0 + 2) (- 2) (- 2 + 2)\<rparr>"
    by (rule subset_inside [OF ne sh]) (simp_all only: clamp_grid_back index_grid_back)
  then have "subset binary64 grid_back (Fin (5 / 2)) (Fin 0) (Fin (5 / 2)) (Fin 1)
       = Inr \<lparr>x = [], y = [Fin 0, Fin 1], data = \<lparr>shape = (2, 0), cells = [[], []]\<rparr>\<rparr>"
    by (simp add: slice_def slice2_def slice_bound_def grid_back_def)
  with l sh clamp_grid_back index_grid_back show ?thesis by simp
qed

end
